theory Spec2Isabelle
  imports Complex_Main "HOL-Library.AList"
begin

section \<open>JavaScript building blocks\<close>

text \<open>
  The graph store and the pathfinding page are TypeScript. Activity ids and edge ids are
  strings; durations and timings are JavaScript numbers, modelled as \<^typ>\<open>real\<close>
  (NaN and the infinities are left out); array indices are \<^typ>\<open>int\<close>, because
  \<open>indexOf\<close> answers \<open>-1\<close>; a frequency is a number of cases, a \<^typ>\<open>nat\<close>,
  and \<open>None\<close> where the field is \<open>undefined\<close>.
\<close>

fun indexOf_from :: "'a list \<Rightarrow> 'a \<Rightarrow> int \<Rightarrow> int" where
  "indexOf_from [] x i = - 1"
| "indexOf_from (y # ys) x i = (if y = x then i else indexOf_from ys x (i + 1))"

definition indexOf :: "'a list \<Rightarrow> 'a \<Rightarrow> int" where
  \<comment> \<open>\<open>Array.prototype.indexOf\<close>: the first position holding \<open>x\<close>, or \<open>-1\<close>.\<close>
  "indexOf xs x = indexOf_from xs x 0"

fun lastIndexOf_from :: "'a list \<Rightarrow> 'a \<Rightarrow> int \<Rightarrow> int \<Rightarrow> int" where
  "lastIndexOf_from [] x i found = found"
| "lastIndexOf_from (y # ys) x i found =
     lastIndexOf_from ys x (i + 1) (if y = x then i else found)"

definition lastIndexOf :: "'a list \<Rightarrow> 'a \<Rightarrow> int" where
  \<comment> \<open>\<open>Array.prototype.lastIndexOf\<close>: the last position holding \<open>x\<close>, or \<open>-1\<close>.\<close>
  "lastIndexOf xs x = lastIndexOf_from xs x 0 (- 1)"

definition elemAt :: "'a list \<Rightarrow> int \<Rightarrow> 'a option" where
  \<comment> \<open>\<open>xs[i]\<close>: \<open>undefined\<close> (here \<open>None\<close>) outside the array.\<close>
  "elemAt xs i = (if 0 \<le> i \<and> i < int (length xs) then Some (xs ! nat i) else None)"

definition slice :: "'a list \<Rightarrow> int \<Rightarrow> int \<Rightarrow> 'a list" where
  \<comment> \<open>\<open>xs.slice(s, e)\<close>: negative arguments count from the end, both are clipped.\<close>
  "slice xs s e =
     (let n = int (length xs);
          s' = (if s < 0 then max (n + s) 0 else min s n);
          e' = (if e < 0 then max (n + e) 0 else min e n)
      in take (nat (e' - s')) (drop (nat s') xs))"

fun join :: "string \<Rightarrow> string list \<Rightarrow> string" where
  "join sep [] = []"
| "join sep [x] = x"
| "join sep (x # y # ys) = x @ sep @ join sep (y # ys)"

definition orZero :: "real option \<Rightarrow> real" where
  \<comment> \<open>\<open>v ?? 0\<close> and, for a number, \<open>v || 0\<close>.\<close>
  "orZero v = (case v of Some r \<Rightarrow> r | None \<Rightarrow> 0)"

definition text_of :: "string option \<Rightarrow> string" where
  \<comment> \<open>A value inside a template literal: \<open>undefined\<close> prints as its name.\<close>
  "text_of v = (case v of Some s \<Rightarrow> s | None \<Rightarrow> ''undefined'')"

definition edgeIdOf :: "string \<Rightarrow> string \<Rightarrow> string" where
  \<comment> \<open>The template \<open>`${source}->${target}`\<close>.\<close>
  "edgeIdOf source target = source @ ''->'' @ target"

text \<open>
  A \<open>Record<string, number>\<close> and a \<open>Map\<close> keep their keys in insertion order:
  writing an existing key replaces the value where it stands, writing a new key appends.
  Both are association lists written with \<open>AList.update\<close>, which does exactly that.
  (Edge ids contain \<open>->\<close>, so no key of a record is an array index, the one case where
  JavaScript reorders.)
\<close>

type_synonym 'v jsrecord = "(string \<times> 'v) list"

definition rec_set :: "string \<Rightarrow> 'v \<Rightarrow> 'v jsrecord \<Rightarrow> 'v jsrecord" where
  "rec_set k v m = AList.update k v m"

definition rec_get :: "'v jsrecord \<Rightarrow> string \<Rightarrow> 'v option" where
  "rec_get m k = map_of m k"

section \<open>Variants and paths\<close>

record Variant =
  Variant_Path :: "string list"
  Frequency :: "nat option"
  Avg_Timings :: "real list"
  Total_Timings :: "real list"

datatype PathType = absolute | relative

record ExtendedPath =
  nodes :: "string list"
  edges :: "string list"
  frequency :: "nat option"
  totalDuration :: "real option"
  averageDuration :: "real option"
  u_variantDuration :: "real option"
  u_frequency :: "nat option"
  u_fullPathNodes :: "string list option"
  u_startIndex :: "int option"
  u_endIndex :: "int option"
  u_pathType :: "PathType option"
  u_variantTimings :: "real list option"
  u_specificEdgeDurations :: "real jsrecord option"
  u_specificTotalDurations :: "real jsrecord option"

section \<open>Path extraction (\<open>findPathsBetweenNodes\<close>, first loop)\<close>

definition startIndexOf :: "string \<Rightarrow> string list \<Rightarrow> int" where
  "startIndexOf startId variantPath =
     (if startId = ''START_NODE'' then 0 else indexOf variantPath startId)"

definition endIndexOf :: "string \<Rightarrow> string list \<Rightarrow> int" where
  "endIndexOf endId variantPath =
     (if endId = ''END_NODE'' then int (length variantPath) - 1
      else lastIndexOf variantPath endId)"

definition avgDurationAt :: "Variant \<Rightarrow> int \<Rightarrow> real" where
  "avgDurationAt v i =
     (let currentTime = orZero (elemAt (Avg_Timings v) i);
          nextTime = orZero (elemAt (Avg_Timings v) (i + 1))
      in max 0 (nextTime - currentTime))"

definition totalTimingDurationAt :: "Variant \<Rightarrow> int \<Rightarrow> real" where
  "totalTimingDurationAt v i =
     (let currentTotal = orZero (elemAt (Total_Timings v) i);
          nextTotal = orZero (elemAt (Total_Timings v) (i + 1))
      in max 0 (nextTotal - currentTotal))"

definition edgeIdAt :: "Variant \<Rightarrow> int \<Rightarrow> string" where
  "edgeIdAt v i =
     edgeIdOf (text_of (elemAt (Variant_Path v) i)) (text_of (elemAt (Variant_Path v) (i + 1)))"

record TimingAcc =
  acc_totalDuration :: real
  acc_edgeDurations :: "real jsrecord"
  acc_edgeTotalDurations :: "real jsrecord"

definition timingStep :: "Variant \<Rightarrow> int \<Rightarrow> TimingAcc \<Rightarrow> TimingAcc" where
  "timingStep v i st =
     \<lparr> acc_totalDuration = acc_totalDuration st + avgDurationAt v i,
       acc_edgeDurations = rec_set (edgeIdAt v i) (avgDurationAt v i) (acc_edgeDurations st),
       acc_edgeTotalDurations =
         rec_set (edgeIdAt v i) (totalTimingDurationAt v i) (acc_edgeTotalDurations st) \<rparr>"

function timingLoop :: "Variant \<Rightarrow> int \<Rightarrow> int \<Rightarrow> TimingAcc \<Rightarrow> TimingAcc" where
  "timingLoop v i endTimingIndex st =
     (if i < endTimingIndex \<and> i + 1 < int (length (Avg_Timings v))
      then timingLoop v (i + 1) endTimingIndex (timingStep v i st)
      else st)"
  by pat_completeness auto
termination
  by (relation "measure (\<lambda>(v, i, e, st). nat (e - i))") auto

declare timingLoop.simps [simp del]

definition extractPath :: "string \<Rightarrow> string \<Rightarrow> Variant \<Rightarrow> ExtendedPath option" where
  \<comment> \<open>One round of the loop over the variants; \<open>None\<close> is \<open>continue\<close>.\<close>
  "extractPath startId endId variant =
     (let variantPath = Variant_Path variant;
          startIndex = startIndexOf startId variantPath
      in if startIndex = - 1 then None
         else
           let endIndex = endIndexOf endId variantPath
           in if endIndex = - 1 \<or> endIndex \<le> startIndex then None
              else
                let subPath = slice variantPath startIndex (endIndex + 1);
                    isAbsolute = (startIndex = 0 \<and> endIndex = int (length variantPath) - 1);
                    path = \<lparr> nodes = subPath, edges = [],
                             frequency = Frequency variant,
                             totalDuration = Some 0, averageDuration = Some 0,
                             u_variantDuration = None,
                             u_frequency = Frequency variant,
                             u_fullPathNodes = Some variantPath,
                             u_startIndex = Some startIndex, u_endIndex = Some endIndex,
                             u_pathType = Some (if isAbsolute then absolute else relative),
                             u_variantTimings = None,
                             u_specificEdgeDurations = None,
                             u_specificTotalDurations = None \<rparr>
                in if Avg_Timings variant \<noteq> [] then
                     let st = timingLoop variant startIndex endIndex
                                \<lparr> acc_totalDuration = 0, acc_edgeDurations = [],
                                  acc_edgeTotalDurations = [] \<rparr>;
                         total = acc_totalDuration st
                     in Some (path
                          \<lparr> totalDuration := Some total,
                            averageDuration :=
                              Some (if length subPath > 1
                                    then total / real (length subPath - 1) else 0),
                            u_variantDuration := Some total,
                            u_variantTimings :=
                              Some (slice (Avg_Timings variant) startIndex (endIndex + 1)),
                            u_specificEdgeDurations := Some (acc_edgeDurations st),
                            u_specificTotalDurations := Some (acc_edgeTotalDurations st) \<rparr>)
                   else Some path)"

definition extractPaths :: "string \<Rightarrow> string \<Rightarrow> Variant list \<Rightarrow> ExtendedPath list" where
  \<comment> \<open>The array \<open>paths\<close> after the first loop.\<close>
  "extractPaths startId endId variantList =
     List.map_filter (extractPath startId endId) variantList"

section \<open>Path aggregation (\<open>findPathsBetweenNodes\<close>, grouping and merging)\<close>

record PathGroup =
  g_path :: ExtendedPath
  totalFrequency :: nat
  weightedTotalDuration :: real
  weightedEdgeDurations :: "real jsrecord"
  summedEdgeTotalDurations :: "real jsrecord"

definition effFrequency :: "ExtendedPath \<Rightarrow> nat" where
  \<comment> \<open>\<open>path.frequency || 1\<close>: \<open>0\<close> and \<open>undefined\<close> are falsy.\<close>
  "effFrequency path =
     (case frequency path of Some f \<Rightarrow> (if f = 0 then 1 else f) | None \<Rightarrow> 1)"

definition freqOrZero :: "ExtendedPath \<Rightarrow> nat" where
  \<comment> \<open>\<open>path.frequency || 0\<close>.\<close>
  "freqOrZero path = (case frequency path of Some f \<Rightarrow> f | None \<Rightarrow> 0)"

definition entries :: "'v jsrecord option \<Rightarrow> (string \<times> 'v) list" where
  \<comment> \<open>\<open>if (r) for (... of Object.entries(r))\<close>: nothing to visit when \<open>r\<close> is undefined.\<close>
  "entries r = (case r of Some m \<Rightarrow> m | None \<Rightarrow> [])"

definition pathKey :: "ExtendedPath \<Rightarrow> string" where
  "pathKey path = join ''->'' (nodes path)"

definition accumulate :: "ExtendedPath \<Rightarrow> PathGroup \<Rightarrow> PathGroup" where
  \<comment> \<open>The branch \<open>if (existing)\<close>: the group's record is updated in place.\<close>
  "accumulate path existing =
     (let frequency = effFrequency path;
          pathTotalDuration = orZero (totalDuration path)
      in existing
           \<lparr> totalFrequency := totalFrequency existing + frequency,
             weightedTotalDuration :=
               weightedTotalDuration existing + pathTotalDuration * real frequency,
             weightedEdgeDurations :=
               fold (\<lambda>(edgeId, duration) w.
                       rec_set edgeId (orZero (rec_get w edgeId) + duration * real frequency) w)
                    (entries (u_specificEdgeDurations path)) (weightedEdgeDurations existing),
             summedEdgeTotalDurations :=
               fold (\<lambda>(edgeId, totalDur) s.
                       rec_set edgeId (orZero (rec_get s edgeId) + totalDur) s)
                    (entries (u_specificTotalDurations path))
                    (summedEdgeTotalDurations existing) \<rparr>)"

definition newGroup :: "ExtendedPath \<Rightarrow> PathGroup" where
  \<comment> \<open>The \<open>else\<close> branch: the first path of a key opens its group.\<close>
  "newGroup path =
     (let frequency = effFrequency path;
          pathTotalDuration = orZero (totalDuration path)
      in \<lparr> g_path = path,
           totalFrequency = frequency,
           weightedTotalDuration = pathTotalDuration * real frequency,
           weightedEdgeDurations =
             fold (\<lambda>(edgeId, duration) w. rec_set edgeId (duration * real frequency) w)
                  (entries (u_specificEdgeDurations path)) [],
           summedEdgeTotalDurations =
             fold (\<lambda>(edgeId, totalDur) s. rec_set edgeId totalDur s)
                  (entries (u_specificTotalDurations path)) [] \<rparr>)"

definition groupStep :: "ExtendedPath \<Rightarrow> PathGroup jsrecord \<Rightarrow> PathGroup jsrecord" where
  "groupStep path pathMap =
     (let key = pathKey path
      in case rec_get pathMap key of
           Some existing \<Rightarrow> rec_set key (accumulate path existing) pathMap
         | None \<Rightarrow> rec_set key (newGroup path) pathMap)"

definition groupPaths :: "ExtendedPath list \<Rightarrow> PathGroup jsrecord" where
  "groupPaths paths = fold groupStep paths []"

definition mergePath :: "PathGroup \<Rightarrow> ExtendedPath" where
  "mergePath g =
     (let avgEdgeDurations =
            fold (\<lambda>(edgeId, weightedTotal) a.
                    rec_set edgeId (weightedTotal / real (totalFrequency g)) a)
                 (weightedEdgeDurations g) [];
          total = weightedTotalDuration g / real (totalFrequency g)
      in (g_path g)
           \<lparr> frequency := Some (totalFrequency g),
             u_frequency := Some (totalFrequency g),
             u_specificEdgeDurations := Some avgEdgeDurations,
             u_specificTotalDurations := Some (summedEdgeTotalDurations g),
             totalDuration := Some total,
             averageDuration :=
               Some (if length (nodes (g_path g)) > 1
                     then total / real (length (nodes (g_path g)) - 1) else 0),
             u_variantDuration := Some total \<rparr>)"

definition sortByFrequency :: "ExtendedPath list \<Rightarrow> ExtendedPath list" where
  \<comment> \<open>\<open>sort((a, b) => (b.frequency || 0) - (a.frequency || 0))\<close>: stable, descending.\<close>
  "sortByFrequency paths = sort_key (\<lambda>p. - int (freqOrZero p)) paths"

definition findPathsBetweenNodes ::
  "string \<Rightarrow> string \<Rightarrow> Variant list \<Rightarrow> ExtendedPath list" where
  "findPathsBetweenNodes startId endId variantList =
     (if variantList = [] then []
      else sortByFrequency (map (mergePath \<circ> snd) (groupPaths (extractPaths startId endId variantList))))"

definition durationOf :: "ExtendedPath \<Rightarrow> string \<Rightarrow> real" where
  \<comment> \<open>The average duration a path records for an edge id, \<open>0\<close> when it records none.\<close>
  "durationOf path edgeId =
     orZero (case u_specificEdgeDurations path of Some m \<Rightarrow> rec_get m edgeId | None \<Rightarrow> None)"

definition totalOf :: "ExtendedPath \<Rightarrow> string \<Rightarrow> real" where
  \<comment> \<open>The total duration a path records for an edge id, \<open>0\<close> when it records none.\<close>
  "totalOf path edgeId =
     orZero (case u_specificTotalDurations path of Some m \<Rightarrow> rec_get m edgeId | None \<Rightarrow> None)"

definition recordsEdge :: "ExtendedPath \<Rightarrow> string \<Rightarrow> bool" where
  \<comment> \<open>Whether the path has an average duration for the edge id.\<close>
  "recordsEdge path edgeId =
     (case u_specificEdgeDurations path of Some m \<Rightarrow> rec_get m edgeId \<noteq> None | None \<Rightarrow> False)"

definition recordsTotal :: "ExtendedPath \<Rightarrow> string \<Rightarrow> bool" where
  \<comment> \<open>Whether the path has a total duration for the edge id.\<close>
  "recordsTotal path edgeId =
     (case u_specificTotalDurations path of Some m \<Rightarrow> rec_get m edgeId \<noteq> None | None \<Rightarrow> False)"

definition qualifies :: "string \<Rightarrow> string \<Rightarrow> Variant \<Rightarrow> bool" where
  \<comment> \<open>A variant the extractor keeps: both endpoints found, the start before the end.\<close>
  "qualifies startId endId variant =
     (startIndexOf startId (Variant_Path variant) \<noteq> - 1 \<and>
      endIndexOf endId (Variant_Path variant) \<noteq> - 1 \<and>
      startIndexOf startId (Variant_Path variant) < endIndexOf endId (Variant_Path variant))"

definition countedFrequency :: "Variant \<Rightarrow> nat" where
  \<comment> \<open>The frequency a variant is counted with: its own, or \<open>1\<close> when that is \<open>0\<close> or missing.\<close>
  "countedFrequency variant =
     (case Frequency variant of None \<Rightarrow> 1 | Some f \<Rightarrow> (if f = 0 then 1 else f))"

definition recordedOnce :: "ExtendedPath \<Rightarrow> bool" where
  \<comment> \<open>Each duration record of the path lists an edge id once, as a JavaScript object does.\<close>
  "recordedOnce path =
     (distinct (map fst (entries (u_specificEdgeDurations path))) \<and>
      distinct (map fst (entries (u_specificTotalDurations path))))"

definition recordedFrequency :: "Variant \<Rightarrow> nat" where
  \<comment> \<open>The frequency a variant records, \<open>0\<close> when the field is missing.\<close>
  "recordedFrequency variant = (case Frequency variant of Some f \<Rightarrow> f | None \<Rightarrow> 0)"

section \<open>The pathfinding click of the store (\<open>handleNodeClick\<close>)\<close>

definition pairEdges :: "string list \<Rightarrow> string list" where
  \<comment> \<open>\<open>for (i = 0; i < nodes.length - 1; i++) push(`${nodes[i]}->${nodes[i + 1]}`)\<close>.\<close>
  "pairEdges pathNodes =
     map (\<lambda>i. edgeIdOf (pathNodes ! i) (pathNodes ! (i + 1))) [0..<length pathNodes - 1]"


section \<open>Graph elements\<close>

datatype NodeKind = activity_node | start_node | end_node

record NodeData =
  nd_label :: string
  nd_type :: "NodeKind option"
  isStart :: "bool option"
  isEnd :: "bool option"
  nd_isGhost :: "bool option"

record NodeStyle =
  width :: nat
  border :: "string option"
  backgroundColor :: "string option"
  color :: "string option"

record Node =
  node_id :: string
  node_type :: NodeKind
  position :: "real \<times> real"
  node_data :: NodeData
  node_style :: NodeStyle
  draggable :: bool

record EdgeData =
  Weight_Value :: "real option"
  Case_Count :: "nat option"
  Mean_Duration_Seconds :: "real option"
  Tooltip_Total_Time :: "string option"
  Tooltip_Mean_Time :: "string option"
  originalStroke :: "string option"
  originalStrokeWidth :: "real option"
  isGhost :: "bool option"
  pathDuration :: "real option"
  pathFrequency :: "nat option"

record EdgeStyle =
  stroke :: "string option"
  strokeDasharray :: "string option"
  strokeWidth :: "real option"

text \<open>
  An edge's \<open>target\<close> is optional because a ghost edge takes its endpoints from
  \<open>edgeId.split("->")\<close>, whose second part is \<open>undefined\<close> for an id without an arrow.
  An absent \<open>data\<close> or \<open>style\<close> object is the record with every field \<open>None\<close>.
\<close>

record Edge =
  edge_id :: string
  source :: string
  target :: "string option"
  edge_type :: string
  edge_label :: "string option"
  animated :: "bool option"
  edge_style :: EdgeStyle
  edge_data :: EdgeData

definition noData :: EdgeData where
  "noData = \<lparr> Weight_Value = None, Case_Count = None, Mean_Duration_Seconds = None,
              Tooltip_Total_Time = None, Tooltip_Mean_Time = None, originalStroke = None,
              originalStrokeWidth = None, isGhost = None, pathDuration = None,
              pathFrequency = None \<rparr>"

definition noStyle :: EdgeStyle where
  "noStyle = \<lparr> stroke = None, strokeDasharray = None, strokeWidth = None \<rparr>"

record GraphData =
  item_Source_Activity :: string
  item_Target_Activity :: string
  item_Mean_Duration_Seconds :: real
  item_Tooltip_Total_Time :: string
  item_Tooltip_Mean_Time :: string
  item_Weight_Value :: real
  item_Edge_Label :: string
  item_Case_Count :: nat

section \<open>Ingestion (\<open>processInitialData\<close>)\<close>

definition START_LABEL :: string where
  \<comment> \<open>The Persian word for "start", as UTF-8 bytes.\<close>
  "START_LABEL = [CHR 0xD8, CHR 0xB4, CHR 0xD8, CHR 0xB1, CHR 0xD9, CHR 0x88, CHR 0xD8, CHR 0xB9]"

definition END_LABEL :: string where
  \<comment> \<open>The Persian word for "end", as UTF-8 bytes.\<close>
  "END_LABEL = [CHR 0xD9, CHR 0xBE, CHR 0xD8, CHR 0xA7, CHR 0xDB, CHR 0x8C, CHR 0xD8, CHR 0xA7,
                CHR 0xD9, CHR 0x86]"

definition activityNode :: "string list \<Rightarrow> string list \<Rightarrow> string \<Rightarrow> Node" where
  "activityNode startActivities endActivities name =
     \<lparr> node_id = name, node_type = activity_node, position = (0, 0),
       node_data = \<lparr> nd_label = name, nd_type = Some activity_node,
                     isStart = Some (name \<in> set startActivities),
                     isEnd = Some (name \<in> set endActivities), nd_isGhost = None \<rparr>,
       node_style = \<lparr> width = 250, border = None, backgroundColor = None, color = None \<rparr>,
       draggable = True \<rparr>"

definition recordEdge :: "GraphData \<Rightarrow> Edge" where
  \<comment> \<open>The edge built from one record of the graph data.\<close>
  "recordEdge item =
     \<lparr> edge_id = edgeIdOf (item_Source_Activity item) (item_Target_Activity item),
       source = item_Source_Activity item,
       target = Some (item_Target_Activity item),
       edge_type = ''default'',
       edge_label = Some (item_Edge_Label item),
       animated = None,
       edge_style = noStyle,
       edge_data = noData
         \<lparr> Weight_Value := Some (item_Weight_Value item),
           Case_Count := Some (item_Case_Count item),
           Mean_Duration_Seconds := Some (item_Mean_Duration_Seconds item),
           Tooltip_Total_Time := Some (item_Tooltip_Total_Time item),
           Tooltip_Mean_Time := Some (item_Tooltip_Mean_Time item) \<rparr> \<rparr>"

definition ingestItem ::
  "string list \<Rightarrow> string list \<Rightarrow> GraphData \<Rightarrow> Node jsrecord \<times> Edge jsrecord
     \<Rightarrow> Node jsrecord \<times> Edge jsrecord" where
  \<comment> \<open>One round of the second \<open>graphData.forEach\<close>: every write is guarded by \<open>!has\<close>.\<close>
  "ingestItem startActivities endActivities item maps =
     (let nodesMap = fst maps; edgesMap = snd maps;
          source = item_Source_Activity item;
          target = item_Target_Activity item;
          nodesMap1 = (if rec_get nodesMap source = None
                       then rec_set source (activityNode startActivities endActivities source) nodesMap
                       else nodesMap);
          nodesMap2 = (if rec_get nodesMap1 target = None
                       then rec_set target (activityNode startActivities endActivities target) nodesMap1
                       else nodesMap1);
          edgeId = edgeIdOf source target;
          edgesMap1 = (if rec_get edgesMap edgeId = None
                       then rec_set edgeId (recordEdge item) edgesMap
                       else edgesMap)
      in (nodesMap2, edgesMap1))"

definition anchorStyle :: EdgeStyle where
  "anchorStyle = \<lparr> stroke = Some ''#a0aec0'', strokeDasharray = Some ''5 5'', strokeWidth = None \<rparr>"

definition anchorData :: EdgeData where
  "anchorData = noData \<lparr> originalStroke := Some ''#a0aec0'', originalStrokeWidth := Some 1.5 \<rparr>"

definition startEdge :: "string \<Rightarrow> Edge" where
  "startEdge targetNodeId =
     \<lparr> edge_id = ''start-to-'' @ targetNodeId, source = ''START_NODE'',
       target = Some targetNodeId, edge_type = ''default'', edge_label = None,
       animated = None, edge_style = anchorStyle, edge_data = anchorData \<rparr>"

definition endEdge :: "string \<Rightarrow> Edge" where
  "endEdge sourceNodeId =
     \<lparr> edge_id = sourceNodeId @ ''-to-end'', source = sourceNodeId,
       target = Some ''END_NODE'', edge_type = ''default'', edge_label = None,
       animated = None, edge_style = anchorStyle, edge_data = anchorData \<rparr>"

definition startNode :: Node where
  "startNode =
     \<lparr> node_id = ''START_NODE'', node_type = start_node, position = (0, 0),
       node_data = \<lparr> nd_label = START_LABEL, nd_type = Some start_node,
                     isStart = None, isEnd = None, nd_isGhost = None \<rparr>,
       node_style = \<lparr> width = 150, border = None, backgroundColor = None, color = None \<rparr>,
       draggable = True \<rparr>"

definition endNode :: Node where
  "endNode =
     \<lparr> node_id = ''END_NODE'', node_type = end_node, position = (0, 0),
       node_data = \<lparr> nd_label = END_LABEL, nd_type = Some end_node,
                     isStart = None, isEnd = None, nd_isGhost = None \<rparr>,
       node_style = \<lparr> width = 150, border = None, backgroundColor = None, color = None \<rparr>,
       draggable = True \<rparr>"

definition validNodeIds :: "GraphData list \<Rightarrow> string set" where
  "validNodeIds graphData =
     set (map item_Source_Activity graphData) \<union> set (map item_Target_Activity graphData)"

definition ingestMaps ::
  "GraphData list \<Rightarrow> string list \<Rightarrow> string list \<Rightarrow> Node jsrecord \<times> Edge jsrecord" where
  \<comment> \<open>\<open>nodesMap\<close> and \<open>edgesMap\<close> at the end of \<open>processInitialData\<close>.\<close>
  "ingestMaps graphData startActivities endActivities =
     (let maps = fold (ingestItem startActivities endActivities) graphData ([], []);
          nodesMap = rec_set ''END_NODE'' endNode (rec_set ''START_NODE'' startNode (fst maps));
          edgesMap1 =
            fold (\<lambda>targetNodeId m. rec_set (''start-to-'' @ targetNodeId) (startEdge targetNodeId) m)
                 (filter (\<lambda>targetId. targetId \<in> validNodeIds graphData) startActivities)
                 (snd maps);
          edgesMap2 =
            fold (\<lambda>sourceNodeId m. rec_set (sourceNodeId @ ''-to-end'') (endEdge sourceNodeId) m)
                 (filter (\<lambda>sourceId. sourceId \<in> validNodeIds graphData) endActivities)
                 edgesMap1
      in (nodesMap, edgesMap2))"

record GraphState =
  allNodes :: "Node list"
  allEdges :: "Edge list"
  layoutedNodes :: "Node list"
  layoutedEdges :: "Edge list"
  isLayoutLoading :: bool
  loadingMessage :: string
  isPathFinding :: bool
  pathStartNodeId :: "string option"
  pathEndNodeId :: "string option"
  foundPaths :: "ExtendedPath list"
  activePath :: "ExtendedPath option"
  u_edgeLookupMap :: "Edge jsrecord"

definition itemEdgeId :: "GraphData \<Rightarrow> string" where
  \<comment> \<open>The edge id \<open>`${source}->${target}`\<close> of a record.\<close>
  "itemEdgeId item = edgeIdOf (item_Source_Activity item) (item_Target_Activity item)"

definition keyed :: "Edge jsrecord \<Rightarrow> bool" where
  \<comment> \<open>A \<open>Map\<close> from edge ids to edges: each key once, each edge under its own id.\<close>
  "keyed m = (distinct (map fst m) \<and> (\<forall>(k, e)\<in>set m. edge_id e = k))"

definition INITIAL_MESSAGE :: string where
  \<comment> \<open>The Persian text "loading the data...", as UTF-8 bytes.\<close>
  "INITIAL_MESSAGE =
     [CHR 0xD8, CHR 0xAF, CHR 0xD8, CHR 0xB1, CHR 0x20, CHR 0xD8, CHR 0xAD, CHR 0xD8, CHR 0xA7,
      CHR 0xD9, CHR 0x84, CHR 0x20, CHR 0xD8, CHR 0xA8, CHR 0xD8, CHR 0xA7, CHR 0xD8, CHR 0xB1,
      CHR 0xDA, CHR 0xAF, CHR 0xD8, CHR 0xB0, CHR 0xD8, CHR 0xA7, CHR 0xD8, CHR 0xB1, CHR 0xDB,
      CHR 0x8C, CHR 0x20, CHR 0xD8, CHR 0xAF, CHR 0xD8, CHR 0xA7, CHR 0xD8, CHR 0xAF, CHR 0xD9,
      CHR 0x87, CHR 0xE2, CHR 0x80, CHR 0x8C, CHR 0xD9, CHR 0x87, CHR 0xD8, CHR 0xA7, CHR 0x2E,
      CHR 0x2E, CHR 0x2E]"

definition initialState :: GraphState where
  \<comment> \<open>The store as \<open>create\<close> makes it.\<close>
  "initialState =
     \<lparr> allNodes = [], allEdges = [], layoutedNodes = [], layoutedEdges = [],
       isLayoutLoading = False, loadingMessage = INITIAL_MESSAGE,
       isPathFinding = False, pathStartNodeId = None, pathEndNodeId = None,
       foundPaths = [], activePath = None, u_edgeLookupMap = [] \<rparr>"

definition processInitialData ::
  "GraphData list \<Rightarrow> string list \<Rightarrow> string list \<Rightarrow> GraphState \<Rightarrow> GraphState" where
  "processInitialData graphData startActivities endActivities s =
     (let maps = ingestMaps graphData startActivities endActivities
      in s \<lparr> allNodes := map snd (fst maps), allEdges := map snd (snd maps) \<rparr>)"

section \<open>Edge overrides (\<open>calculateEdgeOverride\<close>)\<close>

text \<open>
  \<open>formatDuration\<close> prints a number with \<open>toFixed\<close> and a Persian unit; it is a
  parameter \<open>fmt\<close> of the model. The Persian pieces of the templates are UTF-8 bytes.
\<close>

record TooltipOverride =
  to_label :: nat
  meanTime :: string
  totalTime :: string
  rawDuration :: "real option"

record EdgeOverride =
  displayLabel :: string
  tooltipOverride :: TooltipOverride

definition MEAN_SUFFIX :: string where
  "MEAN_SUFFIX = [CHR 0x20, CHR 0x28, CHR 0xD9, CHR 0x85, CHR 0xDB, CHR 0x8C, CHR 0xD8, CHR 0xA7,
                  CHR 0xD9, CHR 0x86, CHR 0xDA, CHR 0xAF, CHR 0xDB, CHR 0x8C, CHR 0xD9, CHR 0x86,
                  CHR 0x29]"

definition SUM_PREFIX :: string where
  "SUM_PREFIX = [CHR 0x20, CHR 0x28, CHR 0xD9, CHR 0x85, CHR 0xD8, CHR 0xAC, CHR 0xD9, CHR 0x85,
                 CHR 0xD9, CHR 0x88, CHR 0xD8, CHR 0xB9, CHR 0x20]"

definition SUM_SUFFIX :: string where
  "SUM_SUFFIX = [CHR 0x20, CHR 0xD8, CHR 0xA8, CHR 0xD8, CHR 0xA7, CHR 0xD8, CHR 0xB1, CHR 0x20,
                 CHR 0xD8, CHR 0xB9, CHR 0xD8, CHR 0xA8, CHR 0xD9, CHR 0x88, CHR 0xD8, CHR 0xB1,
                 CHR 0x29]"

fun decimal :: "nat \<Rightarrow> string" where
  "decimal n = (if n < 10 then [char_of (48 + n)]
                else decimal (n div 10) @ [char_of (48 + n mod 10)])"

declare decimal.simps [simp del]

definition falsyOr :: "nat option \<Rightarrow> nat \<Rightarrow> nat" where
  \<comment> \<open>\<open>v || d\<close> for a number: \<open>0\<close> and \<open>undefined\<close> give \<open>d\<close>.\<close>
  "falsyOr v d = (case v of Some n \<Rightarrow> (if n = 0 then d else n) | None \<Rightarrow> d)"

definition edgeIndicesOf :: "string list \<Rightarrow> string \<Rightarrow> nat list" where
  "edgeIndicesOf pathEdges eid = filter (\<lambda>idx. pathEdges ! idx = eid) [0..<length pathEdges]"

definition occurrenceStep :: "int \<Rightarrow> real list \<Rightarrow> nat \<Rightarrow> real \<times> nat \<Rightarrow> real \<times> nat" where
  \<comment> \<open>One round of \<open>edgeIndices.forEach\<close>: counted only if both timings are numbers.\<close>
  "occurrenceStep startIndex timings idx acc =
     (let timeIndex = startIndex + int idx
      in case elemAt timings timeIndex of
           None \<Rightarrow> acc
         | Some start \<Rightarrow>
             (case elemAt timings (timeIndex + 1) of
                None \<Rightarrow> acc
              | Some end' \<Rightarrow> (fst acc + max 0 (end' - start), snd acc + 1)))"

definition countedOccurrences :: "int \<Rightarrow> real list \<Rightarrow> nat list \<Rightarrow> nat list" where
  \<comment> \<open>The occurrences whose two timings both lie inside the timing array.\<close>
  "countedOccurrences startIndex timings idxs =
     filter (\<lambda>idx. elemAt timings (startIndex + int idx) \<noteq> None \<and>
                   elemAt timings (startIndex + int idx + 1) \<noteq> None) idxs"

definition occurrenceDelta :: "int \<Rightarrow> real list \<Rightarrow> nat \<Rightarrow> real" where
  \<comment> \<open>The clamped difference of the two timings of an occurrence.\<close>
  "occurrenceDelta startIndex timings idx =
     max 0 (timings ! nat (startIndex + int idx + 1) - timings ! nat (startIndex + int idx))"

definition lookupIn :: "'v jsrecord option \<Rightarrow> string \<Rightarrow> 'v option" where
  \<comment> \<open>\<open>r && r[k]\<close>, \<open>r?.[k]\<close>: \<open>undefined\<close> when the record or the key is missing.\<close>
  "lookupIn r k = (case r of Some m \<Rightarrow> rec_get m k | None \<Rightarrow> None)"

definition specificOverride :: "(real \<Rightarrow> string) \<Rightarrow> Edge \<Rightarrow> ExtendedPath \<Rightarrow> real \<Rightarrow> EdgeOverride" where
  \<comment> \<open>"Specific edge stats": the override built from the path's own duration of the edge.\<close>
  "specificOverride fmt edge ap avgDuration =
     (let displayLabel' = fmt avgDuration;
          pathFrequency' = falsyOr (u_frequency ap) (falsyOr (frequency ap) 1);
          totalDuration' =
            (case lookupIn (u_specificTotalDurations ap) (edge_id edge) of
               Some t \<Rightarrow> t | None \<Rightarrow> avgDuration)
      in \<lparr> displayLabel = displayLabel',
           tooltipOverride =
             \<lparr> to_label = pathFrequency',
               meanTime = displayLabel' @ MEAN_SUFFIX,
               totalTime = fmt totalDuration',
               rawDuration = Some avgDuration \<rparr> \<rparr>)"

definition variantOverride :: "(real \<Rightarrow> string) \<Rightarrow> ExtendedPath \<Rightarrow> real \<Rightarrow> nat \<Rightarrow> EdgeOverride" where
  \<comment> \<open>"Variant path stats": the override built from the summed occurrences.\<close>
  "variantOverride fmt ap totalDuration' count =
     (let displayLabel' = fmt totalDuration';
          frequency' = falsyOr (u_frequency ap) 0
      in \<lparr> displayLabel = displayLabel',
           tooltipOverride =
             \<lparr> to_label = frequency',
               meanTime =
                 (if count > 1 then displayLabel' @ SUM_PREFIX @ decimal count @ SUM_SUFFIX
                  else displayLabel'),
               totalTime = fmt (totalDuration' * real frequency'),
               rawDuration = None \<rparr> \<rparr>)"

definition calculateEdgeOverride ::
  "(real \<Rightarrow> string) \<Rightarrow> Edge \<Rightarrow> ExtendedPath option \<Rightarrow> EdgeOverride option" where
  "calculateEdgeOverride fmt edge activePath' =
     (case activePath' of
        None \<Rightarrow> None
      | Some ap \<Rightarrow>
          (let edgeIndices = edgeIndicesOf (edges ap) (edge_id edge)
           in case lookupIn (u_specificEdgeDurations ap) (edge_id edge) of
                Some avgDuration \<Rightarrow> Some (specificOverride fmt edge ap avgDuration)
              | None \<Rightarrow>
                  (case u_variantTimings ap of
                     None \<Rightarrow> None
                   | Some timings \<Rightarrow>
                       (case u_startIndex ap of
                          None \<Rightarrow> None
                        | Some startIndex \<Rightarrow>
                            if edgeIndices \<noteq> [] \<and> timings \<noteq> [] then
                              (let acc = fold (occurrenceStep startIndex timings) edgeIndices (0, 0)
                               in if snd acc > 0
                                  then Some (variantOverride fmt ap (fst acc) (snd acc))
                                  else None)
                            else None))))"

section \<open>Layout (\<open>computeLayout\<close>)\<close>

record ActivePathInfo =
  ap_nodes :: "string list"
  ap_edges :: "string list"
  edgeDurations :: "real jsrecord option"
  edgeTotalDurations :: "real jsrecord option"
  ap_frequency :: "nat option"

record SearchCasePathInfo =
  sc_nodes :: "string list"
  sc_edges :: "string list"

text \<open>\<open>computeLayout\<close> reads these fields of its configuration and no other.\<close>

record LayoutConfig =
  colorPaletteKey :: string
  filteredNodeIds :: "string set"
  filteredEdgeIds :: "string set option"
  activePathInfo :: "ActivePathInfo option"
  searchCasePathInfo :: "SearchCasePathInfo option"

definition inIds :: "string set \<Rightarrow> string option \<Rightarrow> bool" where
  \<comment> \<open>\<open>ids.has(v)\<close>, false for \<open>undefined\<close>.\<close>
  "inIds ids v = (case v of Some t \<Rightarrow> t \<in> ids | None \<Rightarrow> False)"

definition applyNodeFilter :: "LayoutConfig \<Rightarrow> Node list \<times> Edge list \<Rightarrow> Node list \<times> Edge list" where
  "applyNodeFilter config g =
     (let nodesToLayout = fst g; edgesToLayout = snd g
      in if nodesToLayout \<noteq> [] \<and> filteredNodeIds config \<noteq> {} then
           let extendedNodeIds =
                 (if activePathInfo config = None
                  then insert ''END_NODE'' (insert ''START_NODE'' (filteredNodeIds config))
                  else filteredNodeIds config)
           in (filter (\<lambda>node. node_id node \<in> extendedNodeIds) nodesToLayout,
               filter (\<lambda>edge. source edge \<in> extendedNodeIds \<and> inIds extendedNodeIds (target edge))
                      edgesToLayout)
         else g)"

definition applyEdgeFilter :: "LayoutConfig \<Rightarrow> Node list \<times> Edge list \<Rightarrow> Node list \<times> Edge list" where
  "applyEdgeFilter config g =
     (case filteredEdgeIds config of
        Some ids \<Rightarrow>
          if snd g \<noteq> [] \<and> ids \<noteq> {}
          then (fst g, filter (\<lambda>edge. edge_id edge \<in> ids) (snd g))
          else g
      | None \<Rightarrow> g)"

definition subgraphFilter :: "LayoutConfig \<Rightarrow> Node list \<times> Edge list \<Rightarrow> Node list \<times> Edge list" where
  \<comment> \<open>The two filtering steps at the head of \<open>computeLayout\<close>.\<close>
  "subgraphFilter config g = applyEdgeFilter config (applyNodeFilter config g)"

fun splitArrow_from :: "string \<Rightarrow> string \<Rightarrow> string list" where
  "splitArrow_from cur [] = [rev cur]"
| "splitArrow_from cur [c] = [rev (c # cur)]"
| "splitArrow_from cur (c # d # cs) =
     (if c = CHR ''-'' \<and> d = CHR ''>'' then rev cur # splitArrow_from [] cs
      else splitArrow_from (c # cur) (d # cs))"

definition splitArrow :: "string \<Rightarrow> string list" where
  \<comment> \<open>\<open>s.split("->")\<close>.\<close>
  "splitArrow s = splitArrow_from [] s"

definition overlayEdge :: "bool \<Rightarrow> string \<Rightarrow> Edge" where
  \<comment> \<open>The edge made for an id of the overlay: a ghost (dashed, animated) or a plain one.
      \<open>split\<close> answers at least one part, so the source is always there.\<close>
  "overlayEdge ghost edgeId =
     (let parts = splitArrow edgeId
      in \<lparr> edge_id = edgeId,
           source = (case parts of s # _ \<Rightarrow> s | [] \<Rightarrow> []),
           target = (case parts of _ # t # _ \<Rightarrow> Some t | _ \<Rightarrow> None),
           edge_type = ''default'',
           edge_label = Some [],
           animated = Some ghost,
           edge_style =
             (if ghost
              then \<lparr> stroke = Some ''#f59e0b'', strokeDasharray = Some ''5, 5'', strokeWidth = Some 2 \<rparr>
              else \<lparr> stroke = None, strokeDasharray = None, strokeWidth = Some 2 \<rparr>),
           edge_data = noData \<lparr> isGhost := Some ghost \<rparr> \<rparr>)"

definition overlayNode :: "bool \<Rightarrow> string \<Rightarrow> Node" where
  "overlayNode ghost nid =
     \<lparr> node_id = nid, node_type = activity_node, position = (0, 0),
       node_data = \<lparr> nd_label = nid, nd_type = None, isStart = None, isEnd = None,
                     nd_isGhost = Some ghost \<rparr>,
       node_style =
         (if ghost
          then \<lparr> width = 250, border = Some ''2px dashed #f59e0b'',
                 backgroundColor = Some ''#fffbeb'', color = Some ''#b45309'' \<rparr>
          else \<lparr> width = 250, border = None, backgroundColor = None, color = None \<rparr>),
       draggable = True \<rparr>"

definition injectNodes :: "bool \<Rightarrow> string list \<Rightarrow> Node list \<Rightarrow> Node list" where
  \<comment> \<open>\<open>if (ids.length > 0)\<close>: append a node for every listed id that no node has yet.\<close>
  "injectNodes ghost ids nodesToLayout =
     (if ids \<noteq> [] then
        let existingNodeIds = set (map node_id nodesToLayout);
            ghostNodeIds = filter (\<lambda>i. i \<notin> existingNodeIds) ids
        in nodesToLayout @ map (overlayNode ghost) ghostNodeIds
      else nodesToLayout)"

definition injectEdges :: "bool \<Rightarrow> string list \<Rightarrow> Edge list \<Rightarrow> Edge list" where
  "injectEdges ghost ids edgesToLayout =
     (if ids \<noteq> [] then
        let existingEdgeIds = set (map edge_id edgesToLayout);
            ghostEdgeIds = filter (\<lambda>i. i \<notin> existingEdgeIds) ids
        in edgesToLayout @ map (overlayEdge ghost) ghostEdgeIds
      else edgesToLayout)"

definition ghostOverlay :: "ActivePathInfo option \<Rightarrow> Node list \<times> Edge list \<Rightarrow> Node list \<times> Edge list" where
  \<comment> \<open>"Add Ghost Nodes" and "Add Ghost Edges".\<close>
  "ghostOverlay info g =
     (case info of
        Some ap \<Rightarrow> (injectNodes True (ap_nodes ap) (fst g), injectEdges True (ap_edges ap) (snd g))
      | None \<Rightarrow> g)"

definition searchCaseOverlay ::
  "SearchCasePathInfo option \<Rightarrow> Node list \<times> Edge list \<Rightarrow> Node list \<times> Edge list" where
  \<comment> \<open>"Add Search Case Nodes" and "Add Search Case Edges" (not ghosted).\<close>
  "searchCaseOverlay info g =
     (case info of
        Some sc \<Rightarrow> (injectNodes False (sc_nodes sc) (fst g), injectEdges False (sc_edges sc) (snd g))
      | None \<Rightarrow> g)"

text \<open>
  The layered layout itself is the ELK library: \<open>elk.layout\<close> is a parameter that
  answers the placed children, or \<open>None\<close> when its promise is rejected (or the call
  throws). The palette table and \<open>formatDuration\<close> are parameters too.
\<close>

record ElkNode =
  elk_id :: string
  elk_width :: nat
  elk_height :: nat
  layerConstraint :: "string option"

record ElkEdge =
  elkedge_id :: string
  sources :: "string list"
  targets :: "string option list"

record ElkGraph =
  children :: "ElkNode list"
  elk_edges :: "ElkEdge list"

record ElkPlaced =
  placed_id :: string
  placed_x :: "real option"
  placed_y :: "real option"

record Env =
  elk_layout :: "ElkGraph \<Rightarrow> ElkPlaced list option"
  formatDuration :: "real \<Rightarrow> string"
  colorPalettes :: "string \<Rightarrow> (real \<Rightarrow> real \<Rightarrow> real \<Rightarrow> string) option"
  defaultPalette :: "real \<Rightarrow> real \<Rightarrow> real \<Rightarrow> string"

datatype LayoutError = ElkLayoutFailed

definition LAYOUT_MESSAGE :: string where
  \<comment> \<open>The Persian loading message shown while the layout runs, as UTF-8 bytes.\<close>
  "LAYOUT_MESSAGE =
     [CHR 0xD8, CHR 0xAF, CHR 0xD8, CHR 0xB1, CHR 0x20, CHR 0xD8, CHR 0xAD, CHR 0xD8, CHR 0xA7,
      CHR 0xD9, CHR 0x84, CHR 0x20, CHR 0xD9, CHR 0x85, CHR 0xD8, CHR 0xAD, CHR 0xD8, CHR 0xA7,
      CHR 0xD8, CHR 0xB3, CHR 0xD8, CHR 0xA8, CHR 0xD9, CHR 0x87, CHR 0x20, CHR 0xDA, CHR 0x86,
      CHR 0xDB, CHR 0x8C, CHR 0xD8, CHR 0xAF, CHR 0xD9, CHR 0x85, CHR 0xD8, CHR 0xA7, CHR 0xD9,
      CHR 0x86, CHR 0x20, CHR 0xDA, CHR 0xAF, CHR 0xD8, CHR 0xB1, CHR 0xD8, CHR 0xA7, CHR 0xD9,
      CHR 0x81, CHR 0x2E, CHR 0x2E, CHR 0x2E]"

definition elkNodeOf :: "Node \<Rightarrow> ElkNode" where
  "elkNodeOf node =
     \<lparr> elk_id = node_id node,
       elk_width = (if width (node_style node) = 0 then 250 else width (node_style node)),
       elk_height = 50,
       layerConstraint =
         (if node_id node = ''END_NODE'' then Some ''LAST''
          else if node_id node = ''START_NODE'' then Some ''FIRST''
          else None) \<rparr>"

definition elkEdgeOf :: "Edge \<Rightarrow> ElkEdge" where
  "elkEdgeOf edge = \<lparr> elkedge_id = edge_id edge, sources = [source edge], targets = [target edge] \<rparr>"

definition graphToLayout :: "Node list \<Rightarrow> Edge list \<Rightarrow> ElkGraph" where
  "graphToLayout nodesToLayout edgesToLayout =
     \<lparr> children = map elkNodeOf nodesToLayout, elk_edges = map elkEdgeOf edgesToLayout \<rparr>"

definition placeNode :: "ElkPlaced list \<Rightarrow> Node \<Rightarrow> Node" where
  \<comment> \<open>\<open>{ x: elkNode?.x || 0, y: elkNode?.y || 0 }\<close>.\<close>
  "placeNode placed node =
     (let elkNode = find (\<lambda>n. placed_id n = node_id node) placed
      in node \<lparr> position :=
           (case elkNode of Some n \<Rightarrow> (orZero (placed_x n), orZero (placed_y n)) | None \<Rightarrow> (0, 0)) \<rparr>)"

definition isGhostEdge :: "Edge \<Rightarrow> bool" where
  "isGhostEdge edge = (isGhost (edge_data edge) = Some True)"

definition weightOf :: "Edge \<Rightarrow> real" where
  "weightOf edge = orZero (Weight_Value (edge_data edge))"

definition weightStep :: "Edge \<Rightarrow> real option \<times> real option \<Rightarrow> real option \<times> real option" where
  \<comment> \<open>The running minimum and maximum; \<open>None\<close> is the initial \<open>Infinity\<close> / \<open>-Infinity\<close>.\<close>
  "weightStep edge rng =
     (if isGhostEdge edge then rng
      else
        let weight = weightOf edge
        in ((case fst rng of None \<Rightarrow> Some weight
             | Some m \<Rightarrow> if weight < m then Some weight else Some m),
            (case snd rng of None \<Rightarrow> Some weight
             | Some m \<Rightarrow> if weight > m then Some weight else Some m)))"

definition weightRange :: "Edge list \<Rightarrow> real \<times> real" where
  "weightRange edgesToLayout =
     (let rng = fold weightStep edgesToLayout (None, None);
          rng1 = (case fst rng of
                      None \<Rightarrow> (0, 1)
                    | Some mn \<Rightarrow> (mn, (case snd rng of Some mx \<Rightarrow> mx | None \<Rightarrow> mn)))
      in if fst rng1 = snd rng1 then (fst rng1, fst rng1 + 1) else rng1)"

definition pathOverride :: "Env \<Rightarrow> ActivePathInfo option \<Rightarrow> Edge \<Rightarrow> Edge" where
  \<comment> \<open>The label and tooltip of an edge that the active path has a duration for.\<close>
  "pathOverride env info edge =
     (case info of
        None \<Rightarrow> edge
      | Some ap \<Rightarrow>
          (case lookupIn (edgeDurations ap) (edge_id edge) of
             None \<Rightarrow> edge
           | Some avgDuration \<Rightarrow>
               (let totalDuration' =
                      (case lookupIn (edgeTotalDurations ap) (edge_id edge) of
                         Some t \<Rightarrow> t | None \<Rightarrow> avgDuration);
                    pathFrequency' = falsyOr (ap_frequency ap) 1
                in edge \<lparr> edge_label := Some (formatDuration env avgDuration),
                          edge_data := (edge_data edge)
                            \<lparr> pathDuration := Some avgDuration,
                              pathFrequency := Some pathFrequency',
                              Tooltip_Mean_Time := Some (formatDuration env avgDuration),
                              Tooltip_Total_Time := Some (formatDuration env totalDuration'),
                              Case_Count := Some pathFrequency' \<rparr> \<rparr>)))"

definition colorEdge :: "Env \<Rightarrow> LayoutConfig \<Rightarrow> real \<times> real \<Rightarrow> Edge \<Rightarrow> Edge" where
  "colorEdge env config rng edge =
     (if isGhostEdge edge then pathOverride env (activePathInfo config) edge
      else
        let getEdgeColor =
              (case colorPalettes env (colorPaletteKey config) of
                 Some f \<Rightarrow> f | None \<Rightarrow> defaultPalette env);
            color' = getEdgeColor (weightOf edge) (fst rng) (snd rng);
            edge1 = edge \<lparr> edge_data := (edge_data edge) \<lparr> originalStroke := Some color' \<rparr> \<rparr>;
            edge2 = pathOverride env (activePathInfo config) edge1
        in edge2 \<lparr> edge_style := (edge_style edge) \<lparr> stroke := Some color' \<rparr> \<rparr>)"

definition updateEdgeLookupMap :: "GraphState \<Rightarrow> GraphState" where
  "updateEdgeLookupMap s =
     s \<lparr> u_edgeLookupMap :=
           fold (\<lambda>edge m. rec_set (edgeIdOf (source edge) (text_of (target edge))) edge m)
                (allEdges s) [] \<rparr>"

definition tryLayout ::
  "Env \<Rightarrow> LayoutConfig \<Rightarrow> Node list \<Rightarrow> Edge list \<Rightarrow> GraphState \<Rightarrow> LayoutError + GraphState" where
  \<comment> \<open>The \<open>try\<close> block: \<open>Inl\<close> is the exception that leaves it.\<close>
  "tryLayout env config nodesToLayout edgesToLayout s =
     (case elk_layout env (graphToLayout nodesToLayout edgesToLayout) of
        None \<Rightarrow> Inl ElkLayoutFailed
      | Some placed \<Rightarrow>
          let newLayoutedNodes = map (placeNode placed) nodesToLayout;
              rng = weightRange edgesToLayout;
              coloredEdges = map (colorEdge env config rng) edgesToLayout
          in Inr (updateEdgeLookupMap
                    (s \<lparr> layoutedNodes := newLayoutedNodes,
                         layoutedEdges := coloredEdges,
                         isLayoutLoading := False \<rparr>)))"

definition toLayout :: "LayoutConfig \<Rightarrow> GraphState \<Rightarrow> Node list \<times> Edge list" where
  \<comment> \<open>\<open>nodesToLayout\<close> and \<open>edgesToLayout\<close> when the layout is about to start.\<close>
  "toLayout config s =
     searchCaseOverlay (searchCasePathInfo config)
       (ghostOverlay (activePathInfo config)
          (subgraphFilter config (allNodes s, allEdges s)))"

definition computeLayout :: "Env \<Rightarrow> LayoutConfig \<Rightarrow> GraphState \<Rightarrow> LayoutError + GraphState" where
  \<comment> \<open>The promise of \<open>computeLayout\<close>: \<open>Inr\<close> the store once it has settled, \<open>Inl\<close>
      a rejection. The \<open>catch\<close> only logs and resets the loading flag.\<close>
  "computeLayout env config s =
     (let g = toLayout config s;
          nodesToLayout = fst g;
          edgesToLayout = snd g
      in if nodesToLayout = [] then
           Inr (s \<lparr> layoutedNodes := [], layoutedEdges := [], isLayoutLoading := False \<rparr>)
         else
           let s1 = s \<lparr> isLayoutLoading := True, loadingMessage := LAYOUT_MESSAGE \<rparr>
           in case tryLayout env config nodesToLayout edgesToLayout s1 of
                Inr s2 \<Rightarrow> Inr s2
              | Inl e \<Rightarrow> Inr (s1 \<lparr> isLayoutLoading := False \<rparr>))"

section \<open>Facts about the building blocks\<close>

lemma indexOf_from_eq:
  "indexOf_from xs x i =
     (if x \<in> set xs then i + int (length (takeWhile (\<lambda>y. y \<noteq> x) xs)) else - 1)"
  by (induction xs arbitrary: i) auto


lemma first_position:
  assumes "x \<in> set xs"
  defines "n \<equiv> length (takeWhile (\<lambda>y. y \<noteq> x) xs)"
  shows "n < length xs" and "xs ! n = x" and "\<forall>j<n. xs ! j \<noteq> x"
proof -
  show lt: "n < length xs"
  proof (rule ccontr)
    assume "\<not> n < length xs"
    with length_takeWhile_le [of "\<lambda>y. y \<noteq> x" xs]
    have "length (takeWhile (\<lambda>y. y \<noteq> x) xs) = length xs" by (simp add: n_def)
    then have "takeWhile (\<lambda>y. y \<noteq> x) xs = xs"
      using takeWhile_eq_take [of "\<lambda>y. y \<noteq> x" xs] by simp
    then have "\<forall>y\<in>set xs. y \<noteq> x"
      by (simp only: takeWhile_eq_all_conv)
    with assms(1) show False by blast
  qed
  from nth_length_takeWhile [of "\<lambda>y. y \<noteq> x" xs] lt show "xs ! n = x"
    unfolding n_def by simp
  show "\<forall>j<n. xs ! j \<noteq> x"
  proof (intro allI impI)
    fix j assume "j < n"
    then have "j < length (takeWhile (\<lambda>y. y \<noteq> x) xs)" by (simp add: n_def)
    then have "takeWhile (\<lambda>y. y \<noteq> x) xs ! j = xs ! j"
      and "takeWhile (\<lambda>y. y \<noteq> x) xs ! j \<in> set (takeWhile (\<lambda>y. y \<noteq> x) xs)"
      by (rule takeWhile_nth, rule nth_mem)
    then show "xs ! j \<noteq> x" by (auto dest: set_takeWhileD)
  qed
qed

lemma indexOf_first:
  assumes "x \<in> set xs"
  shows "0 \<le> indexOf xs x" and "indexOf xs x < int (length xs)"
    and "xs ! nat (indexOf xs x) = x" and "\<forall>j < nat (indexOf xs x). xs ! j \<noteq> x"
  using first_position [OF assms] assms by (simp_all add: indexOf_def indexOf_from_eq)

lemma indexOf_absent: "x \<notin> set xs \<Longrightarrow> indexOf xs x = - 1"
  by (simp add: indexOf_def indexOf_from_eq)





lemma startIndexOf_range: "- 1 \<le> startIndexOf startId path \<and> startIndexOf startId path \<le> int (length path)"
  using indexOf_first(1,2) [of startId path] indexOf_absent [of startId path]
  by (cases "startId \<in> set path") (auto simp: startIndexOf_def)


lemma extractPath_None_iff:
  "(extractPath startId endId v = None) =
     (startIndexOf startId (Variant_Path v) = - 1 \<or> endIndexOf endId (Variant_Path v) = - 1 \<or>
      endIndexOf endId (Variant_Path v) \<le> startIndexOf startId (Variant_Path v))"
  by (simp add: extractPath_def Let_def)

lemma extractPath_Some_fields:
  assumes "extractPath startId endId v = Some p"
  shows "nodes p = slice (Variant_Path v) (startIndexOf startId (Variant_Path v))
                     (endIndexOf endId (Variant_Path v) + 1)"
    and "u_startIndex p = Some (startIndexOf startId (Variant_Path v))"
    and "u_endIndex p = Some (endIndexOf endId (Variant_Path v))"
    and "u_pathType p = Some (if startIndexOf startId (Variant_Path v) = 0 \<and>
            endIndexOf endId (Variant_Path v) = int (length (Variant_Path v)) - 1
          then absolute else relative)"
    and "frequency p = Frequency v"
    and "edges p = []"
  using assms by (auto simp: extractPath_def Let_def split: if_splits)




section \<open>The extraction window\<close>



section \<open>Facts about the timing loop\<close>

lemma rec_get_set: "rec_get (rec_set k v m) k' = (if k' = k then Some v else rec_get m k')"
  by (simp add: rec_get_def rec_set_def update_conv')

lemma distinct_rec_set: "distinct (map fst m) \<Longrightarrow> distinct (map fst (rec_set k v m))"
  by (simp add: rec_set_def distinct_update)

lemma keys_rec_set: "fst ` set (rec_set k v m) = insert k (fst ` set m)"
  by (simp add: rec_set_def dom_update)

lemma timingLoop_step:
  "i < e \<Longrightarrow> i + 1 < int (length (Avg_Timings v)) \<Longrightarrow>
     timingLoop v i e st = timingLoop v (i + 1) e (timingStep v i st)"
  by (subst timingLoop.simps) simp

lemma timingLoop_stop:
  "\<not> (i < e \<and> i + 1 < int (length (Avg_Timings v))) \<Longrightarrow> timingLoop v i e st = st"
  by (subst timingLoop.simps) (simp only: if_False)

lemma timingLoop_untouched:
  "(\<forall>j. i \<le> j \<and> j < e \<and> j + 1 < int (length (Avg_Timings v)) \<longrightarrow> edgeIdAt v j \<noteq> k) \<Longrightarrow>
     rec_get (acc_edgeDurations (timingLoop v i e st)) k = rec_get (acc_edgeDurations st) k \<and>
     rec_get (acc_edgeTotalDurations (timingLoop v i e st)) k = rec_get (acc_edgeTotalDurations st) k"
proof (induction v i e st rule: timingLoop.induct)
  case (1 v i e st)
  show ?case
  proof (cases "i < e \<and> i + 1 < int (length (Avg_Timings v))")
    case True
    with "1.prems" have ne: "edgeIdAt v i \<noteq> k" by auto
    from "1.prems" have "\<forall>j. i + 1 \<le> j \<and> j < e \<and> j + 1 < int (length (Avg_Timings v)) \<longrightarrow> edgeIdAt v j \<noteq> k"
      by auto
    from "1.IH" [OF True this] True ne show ?thesis
      by (simp add: timingLoop_step timingStep_def rec_get_set)
  next
    case False
    from timingLoop_stop [OF False] show ?thesis by simp
  qed
qed

lemma timingLoop_last:
  "i \<le> j \<Longrightarrow> j < e \<Longrightarrow> j + 1 < int (length (Avg_Timings v)) \<Longrightarrow>
   (\<forall>j'. j < j' \<and> j' < e \<and> j' + 1 < int (length (Avg_Timings v)) \<longrightarrow> edgeIdAt v j' \<noteq> edgeIdAt v j) \<Longrightarrow>
     rec_get (acc_edgeDurations (timingLoop v i e st)) (edgeIdAt v j) = Some (avgDurationAt v j) \<and>
     rec_get (acc_edgeTotalDurations (timingLoop v i e st)) (edgeIdAt v j)
       = Some (totalTimingDurationAt v j)"
proof (induction v i e st rule: timingLoop.induct)
  case (1 v i e st)
  from "1.prems" have go: "i < e \<and> i + 1 < int (length (Avg_Timings v))" by auto
  show ?case
  proof (cases "i = j")
    case True
    from "1.prems"(4) True
    have "\<forall>j'. i + 1 \<le> j' \<and> j' < e \<and> j' + 1 < int (length (Avg_Timings v)) \<longrightarrow> edgeIdAt v j' \<noteq> edgeIdAt v j"
      by auto
    from timingLoop_untouched [OF this, of "timingStep v i st"] go True show ?thesis
      by (simp add: timingLoop_step timingStep_def rec_get_set)
  next
    case False
    with "1.prems" have "i + 1 \<le> j" by simp
    from "1.IH" [OF go this "1.prems"(2,3,4)] go show ?thesis
      by (simp add: timingLoop_step)
  qed
qed

lemma avgDurationAt_nonneg: "0 \<le> avgDurationAt v i"
  by (simp add: avgDurationAt_def Let_def)

lemma totalTimingDurationAt_nonneg: "0 \<le> totalTimingDurationAt v i"
  by (simp add: totalTimingDurationAt_def Let_def)

lemma timingLoop_nonneg:
  "(\<forall>k d. rec_get (acc_edgeDurations st) k = Some d \<longrightarrow> 0 \<le> d) \<Longrightarrow>
   (\<forall>k d. rec_get (acc_edgeTotalDurations st) k = Some d \<longrightarrow> 0 \<le> d) \<Longrightarrow>
   0 \<le> acc_totalDuration st \<Longrightarrow>
     (\<forall>k d. rec_get (acc_edgeDurations (timingLoop v i e st)) k = Some d \<longrightarrow> 0 \<le> d) \<and>
     (\<forall>k d. rec_get (acc_edgeTotalDurations (timingLoop v i e st)) k = Some d \<longrightarrow> 0 \<le> d) \<and>
     0 \<le> acc_totalDuration (timingLoop v i e st)"
proof (induction v i e st rule: timingLoop.induct)
  case (1 v i e st)
  show ?case
  proof (cases "i < e \<and> i + 1 < int (length (Avg_Timings v))")
    case True
    have a: "\<forall>k d. rec_get (acc_edgeDurations (timingStep v i st)) k = Some d \<longrightarrow> 0 \<le> d"
      using "1.prems"(1) avgDurationAt_nonneg [of v i]
      by (auto simp: timingStep_def rec_get_set split: if_splits)
    have b: "\<forall>k d. rec_get (acc_edgeTotalDurations (timingStep v i st)) k = Some d \<longrightarrow> 0 \<le> d"
      using "1.prems"(2) totalTimingDurationAt_nonneg [of v i]
      by (auto simp: timingStep_def rec_get_set split: if_splits)
    have c: "0 \<le> acc_totalDuration (timingStep v i st)"
      using "1.prems"(3) avgDurationAt_nonneg [of v i] by (simp add: timingStep_def)
    from "1.IH" [OF True a b c] True show ?thesis
      by (simp add: timingLoop_step)
  next
    case False
    from timingLoop_stop [OF False] "1.prems" show ?thesis by simp
  qed
qed

lemma timingLoop_distinct:
  "distinct (map fst (acc_edgeDurations st)) \<Longrightarrow> distinct (map fst (acc_edgeTotalDurations st)) \<Longrightarrow>
     distinct (map fst (acc_edgeDurations (timingLoop v i e st))) \<and>
     distinct (map fst (acc_edgeTotalDurations (timingLoop v i e st)))"
proof (induction v i e st rule: timingLoop.induct)
  case (1 v i e st)
  show ?case
  proof (cases "i < e \<and> i + 1 < int (length (Avg_Timings v))")
    case True
    from "1.prems" have "distinct (map fst (acc_edgeDurations (timingStep v i st)))"
      "distinct (map fst (acc_edgeTotalDurations (timingStep v i st)))"
      by (simp_all add: timingStep_def distinct_rec_set)
    from "1.IH" [OF True this] True show ?thesis
      by (simp add: timingLoop_step)
  next
    case False
    from timingLoop_stop [OF False] "1.prems" show ?thesis by simp
  qed
qed

section \<open>Facts about the occurrences of an edge\<close>

lemma occurrenceStep_cases:
  "occurrenceStep si ts idx acc =
     (if elemAt ts (si + int idx) \<noteq> None \<and> elemAt ts (si + int idx + 1) \<noteq> None
      then (fst acc + occurrenceDelta si ts idx, snd acc + 1) else acc)"
  by (auto simp: occurrenceStep_def occurrenceDelta_def Let_def elemAt_def split: option.splits)

lemma fold_occurrenceStep:
  "fold (occurrenceStep si ts) idxs acc =
     (fst acc + (\<Sum>idx\<leftarrow>countedOccurrences si ts idxs. occurrenceDelta si ts idx),
      snd acc + length (countedOccurrences si ts idxs))"
proof (induction idxs arbitrary: acc)
  case Nil
  show ?case by (simp add: countedOccurrences_def)
next
  case (Cons i idxs)
  show ?case
    using Cons.IH [of "occurrenceStep si ts i acc"]
    by (simp add: occurrenceStep_cases countedOccurrences_def)
qed

lemma edgeIndicesOf_length: "length (edgeIndicesOf es eid) = count_list es eid"
proof -
  have "length (edgeIndicesOf es eid) = length (filter (\<lambda>e. e = eid) (map ((!) es) [0..<length es]))"
    by (simp add: edgeIndicesOf_def filter_map comp_def)
  also have "\<dots> = length (filter (\<lambda>e. e = eid) es)" by (simp only: map_nth)
  also have "(\<lambda>e. e = eid) = ((=) eid)" by auto
  also have "length (filter ((=) eid) es) = count_list es eid"
    by (simp add: count_list_eq_length_filter)
  finally show ?thesis .
qed

lemma countedOccurrences_all:
  "(\<forall>idx\<in>set idxs. 0 \<le> si + int idx \<and> si + int idx + 1 < int (length ts)) \<Longrightarrow>
     countedOccurrences si ts idxs = idxs"
  by (auto simp: countedOccurrences_def elemAt_def filter_id_conv)

lemma occurrenceStep_clamped:
  "occurrenceStep si ts idx acc =
     (if 0 \<le> si + int idx \<and> si + int idx + 1 < int (length ts)
      then (fst acc + max 0 (ts ! nat (si + int idx + 1) - ts ! nat (si + int idx)), snd acc + 1)
      else acc)"
  by (auto simp: occurrenceStep_def Let_def elemAt_def split: option.splits)

lemma fold_occurrenceStep_clamped:
  "fold (occurrenceStep si ts) idxs (0, 0) =
     (\<Sum>idx\<leftarrow>countedOccurrences si ts idxs.
         max 0 (ts ! nat (si + int idx + 1) - ts ! nat (si + int idx)),
      length (countedOccurrences si ts idxs))"
  by (simp add: fold_occurrenceStep occurrenceDelta_def)

lemma variant_branch:
  assumes "lookupIn (u_specificEdgeDurations ap) (edge_id edge) = None"
    and "u_variantTimings ap = Some ts" and "u_startIndex ap = Some si"
  shows "calculateEdgeOverride fmt edge (Some ap) =
     (if countedOccurrences si ts (edgeIndicesOf (edges ap) (edge_id edge)) \<noteq> []
      then Some (variantOverride fmt ap
                  (\<Sum>idx\<leftarrow>countedOccurrences si ts (edgeIndicesOf (edges ap) (edge_id edge)).
                      max 0 (ts ! nat (si + int idx + 1) - ts ! nat (si + int idx)))
                  (length (countedOccurrences si ts (edgeIndicesOf (edges ap) (edge_id edge)))))
      else None)"
proof -
  let ?occ = "edgeIndicesOf (edges ap) (edge_id edge)"
  have empty_ts: "ts = [] \<Longrightarrow> countedOccurrences si ts ?occ = []"
    by (simp add: countedOccurrences_def elemAt_def)
  have empty_occ: "?occ = [] \<Longrightarrow> countedOccurrences si ts ?occ = []"
    by (simp add: countedOccurrences_def)
  from assms empty_ts empty_occ show ?thesis
    by (auto simp: calculateEdgeOverride_def Let_def fold_occurrenceStep_clamped)
qed

lemma variantOverride_label: "displayLabel (variantOverride fmt ap tot n) = fmt tot"
  by (simp add: variantOverride_def Let_def)

lemma extractPath_timed:
  assumes "extractPath startId endId v = Some p"
  shows "Avg_Timings v \<noteq> [] \<Longrightarrow>
           u_specificEdgeDurations p =
             Some (acc_edgeDurations
               (timingLoop v (startIndexOf startId (Variant_Path v)) (endIndexOf endId (Variant_Path v))
                  \<lparr> acc_totalDuration = 0, acc_edgeDurations = [], acc_edgeTotalDurations = [] \<rparr>))"
    and "Avg_Timings v \<noteq> [] \<Longrightarrow>
           u_specificTotalDurations p =
             Some (acc_edgeTotalDurations
               (timingLoop v (startIndexOf startId (Variant_Path v)) (endIndexOf endId (Variant_Path v))
                  \<lparr> acc_totalDuration = 0, acc_edgeDurations = [], acc_edgeTotalDurations = [] \<rparr>))"
    and "Avg_Timings v \<noteq> [] \<Longrightarrow>
           totalDuration p =
             Some (acc_totalDuration
               (timingLoop v (startIndexOf startId (Variant_Path v)) (endIndexOf endId (Variant_Path v))
                  \<lparr> acc_totalDuration = 0, acc_edgeDurations = [], acc_edgeTotalDurations = [] \<rparr>))"
    and "Avg_Timings v = [] \<Longrightarrow> u_specificEdgeDurations p = None"
    and "Avg_Timings v = [] \<Longrightarrow> u_specificTotalDurations p = None"
    and "Avg_Timings v = [] \<Longrightarrow> totalDuration p = Some 0"
  using assms by (auto simp: extractPath_def Let_def split: if_splits)

lemma occurrence_total_nonneg:
  "0 \<le> fst acc \<Longrightarrow> 0 \<le> fst (fold (occurrenceStep startIndex timings) idxs acc)"
proof (induction idxs arbitrary: acc)
  case Nil
  then show ?case by simp
next
  case (Cons i idxs)
  from Cons.prems have "0 \<le> fst (occurrenceStep startIndex timings i acc)"
    by (simp add: occurrenceStep_def Let_def split: option.splits)
  from Cons.IH [OF this] show ?case by simp
qed

lemma avgDurationAt_in_range:
  "0 \<le> i \<Longrightarrow> i + 1 < int (length (Avg_Timings v)) \<Longrightarrow>
     avgDurationAt v i = max 0 (Avg_Timings v ! nat (i + 1) - Avg_Timings v ! nat i)"
  by (simp add: avgDurationAt_def Let_def elemAt_def orZero_def)

section \<open>The duration clamp\<close>

text \<open>
  Claim C7. The duration derived for position \<open>i\<close> of a variant is
  \<open>max 0 (Avg_Timings[i + 1] - Avg_Timings[i])\<close>: it is \<open>0\<close> where the cumulative
  timings decrease and never negative. For an extracted path, every recorded average
  and total edge duration and the path's own total are non-negative, and the duration
  recorded for the edge at a position of the window (the last position of that edge id
  in the window, since a later one overwrites) is the clamped difference, so \<open>0\<close> when
  the timings decrease there. \<open>calculateEdgeOverride\<close> clamps the same way: a round of its
  loop over the occurrences of an edge adds exactly \<open>max 0 (end - start)\<close> to the sum and
  one to the count when both timings lie inside the timing array, and changes nothing
  otherwise, so an occurrence whose timings decrease is counted and adds \<open>0\<close>; the sum
  after the loop is the sum of these clamped differences over the counted occurrences
  and is never negative, and it is the duration the override of the variant branch is
  built from and shows as its label.
\<close>

theorem edge_duration_clamped:
  assumes "extractPath startId endId v = Some p"
  shows
    "(\<forall>i. 0 \<le> i \<and> i + 1 < int (length (Avg_Timings v)) \<and>
          Avg_Timings v ! nat (i + 1) < Avg_Timings v ! nat i \<longrightarrow> avgDurationAt v i = 0) \<and>
     (\<forall>k d. lookupIn (u_specificEdgeDurations p) k = Some d \<longrightarrow> 0 \<le> d) \<and>
     (\<forall>k d. lookupIn (u_specificTotalDurations p) k = Some d \<longrightarrow> 0 \<le> d) \<and>
     (\<forall>d. totalDuration p = Some d \<longrightarrow> 0 \<le> d) \<and>
     (\<forall>i. startIndexOf startId (Variant_Path v) \<le> i \<and> i < endIndexOf endId (Variant_Path v) \<and>
          i + 1 < int (length (Avg_Timings v)) \<and>
          (\<forall>j. i < j \<and> j < endIndexOf endId (Variant_Path v) \<and>
               j + 1 < int (length (Avg_Timings v)) \<longrightarrow> edgeIdAt v j \<noteq> edgeIdAt v i) \<longrightarrow>
          lookupIn (u_specificEdgeDurations p) (edgeIdAt v i)
            = Some (max 0 (Avg_Timings v ! nat (i + 1) - Avg_Timings v ! nat i)) \<and>
          (Avg_Timings v ! nat (i + 1) < Avg_Timings v ! nat i \<longrightarrow>
             lookupIn (u_specificEdgeDurations p) (edgeIdAt v i) = Some 0)) \<and>
     (\<forall>startIndex timings idxs. 0 \<le> fst (fold (occurrenceStep startIndex timings) idxs (0, 0))) \<and>
     (\<forall>startIndex timings idx acc.
        occurrenceStep startIndex timings idx acc =
          (if 0 \<le> startIndex + int idx \<and> startIndex + int idx + 1 < int (length timings)
           then (fst acc + max 0 (timings ! nat (startIndex + int idx + 1)
                                    - timings ! nat (startIndex + int idx)),
                 snd acc + 1)
           else acc)) \<and>
     (\<forall>startIndex timings idx acc.
        0 \<le> startIndex + int idx \<and> startIndex + int idx + 1 < int (length timings) \<and>
        timings ! nat (startIndex + int idx + 1) < timings ! nat (startIndex + int idx) \<longrightarrow>
        occurrenceStep startIndex timings idx acc = (fst acc, snd acc + 1)) \<and>
     (\<forall>startIndex timings idxs.
        fold (occurrenceStep startIndex timings) idxs (0, 0) =
          (\<Sum>idx\<leftarrow>countedOccurrences startIndex timings idxs.
              max 0 (timings ! nat (startIndex + int idx + 1) - timings ! nat (startIndex + int idx)),
           length (countedOccurrences startIndex timings idxs))) \<and>
     (\<forall>fmt edge ap timings startIndex.
        lookupIn (u_specificEdgeDurations ap) (edge_id edge) = None \<and>
        u_variantTimings ap = Some timings \<and> u_startIndex ap = Some startIndex \<longrightarrow>
        calculateEdgeOverride fmt edge (Some ap) =
          (if countedOccurrences startIndex timings (edgeIndicesOf (edges ap) (edge_id edge)) \<noteq> []
           then Some (variantOverride fmt ap
                  (\<Sum>idx\<leftarrow>countedOccurrences startIndex timings
                                (edgeIndicesOf (edges ap) (edge_id edge)).
                      max 0 (timings ! nat (startIndex + int idx + 1)
                               - timings ! nat (startIndex + int idx)))
                  (length (countedOccurrences startIndex timings
                             (edgeIndicesOf (edges ap) (edge_id edge)))))
           else None)) \<and>
     (\<forall>fmt ap tot n. displayLabel (variantOverride fmt ap tot n) = fmt tot)"
proof -
  let ?si = "startIndexOf startId (Variant_Path v)"
  let ?ei = "endIndexOf endId (Variant_Path v)"
  let ?init = "\<lparr> acc_totalDuration = 0, acc_edgeDurations = [], acc_edgeTotalDurations = [] \<rparr>"
  from assms extractPath_None_iff [of startId endId v] have "?si \<noteq> - 1" by auto
  with startIndexOf_range [of startId "Variant_Path v"] have si0: "0 \<le> ?si" by simp
  have a: "\<forall>i. 0 \<le> i \<and> i + 1 < int (length (Avg_Timings v)) \<and>
          Avg_Timings v ! nat (i + 1) < Avg_Timings v ! nat i \<longrightarrow> avgDurationAt v i = 0"
    by (simp add: avgDurationAt_in_range)
  have nn: "(\<forall>k d. rec_get (acc_edgeDurations (timingLoop v ?si ?ei ?init)) k = Some d \<longrightarrow> 0 \<le> d) \<and>
     (\<forall>k d. rec_get (acc_edgeTotalDurations (timingLoop v ?si ?ei ?init)) k = Some d \<longrightarrow> 0 \<le> d) \<and>
     0 \<le> acc_totalDuration (timingLoop v ?si ?ei ?init)"
    by (rule timingLoop_nonneg) (simp_all add: rec_get_def)
  have b: "\<forall>k d. lookupIn (u_specificEdgeDurations p) k = Some d \<longrightarrow> 0 \<le> d"
    using extractPath_timed(1,4) [OF assms] nn
    by (cases "Avg_Timings v = []") (simp_all add: lookupIn_def)
  have c: "\<forall>k d. lookupIn (u_specificTotalDurations p) k = Some d \<longrightarrow> 0 \<le> d"
    using extractPath_timed(2,5) [OF assms] nn
    by (cases "Avg_Timings v = []") (simp_all add: lookupIn_def)
  have d: "\<forall>d. totalDuration p = Some d \<longrightarrow> 0 \<le> d"
    using extractPath_timed(3,6) [OF assms] nn
    by (cases "Avg_Timings v = []") simp_all
  have e: "\<forall>i. ?si \<le> i \<and> i < ?ei \<and> i + 1 < int (length (Avg_Timings v)) \<and>
          (\<forall>j. i < j \<and> j < ?ei \<and> j + 1 < int (length (Avg_Timings v)) \<longrightarrow>
               edgeIdAt v j \<noteq> edgeIdAt v i) \<longrightarrow>
          lookupIn (u_specificEdgeDurations p) (edgeIdAt v i)
            = Some (max 0 (Avg_Timings v ! nat (i + 1) - Avg_Timings v ! nat i)) \<and>
          (Avg_Timings v ! nat (i + 1) < Avg_Timings v ! nat i \<longrightarrow>
             lookupIn (u_specificEdgeDurations p) (edgeIdAt v i) = Some 0)"
  proof (intro allI impI)
    fix i
    assume h: "?si \<le> i \<and> i < ?ei \<and> i + 1 < int (length (Avg_Timings v)) \<and>
          (\<forall>j. i < j \<and> j < ?ei \<and> j + 1 < int (length (Avg_Timings v)) \<longrightarrow>
               edgeIdAt v j \<noteq> edgeIdAt v i)"
    with si0 have ne: "Avg_Timings v \<noteq> []" by auto
    from h si0 have i0: "0 \<le> i" by simp
    from h have "rec_get (acc_edgeDurations (timingLoop v ?si ?ei ?init)) (edgeIdAt v i)
        = Some (avgDurationAt v i)"
      using timingLoop_last [of ?si i ?ei v ?init] by blast
    with extractPath_timed(1) [OF assms ne]
    have "lookupIn (u_specificEdgeDurations p) (edgeIdAt v i) = Some (avgDurationAt v i)"
      by (simp add: lookupIn_def)
    with avgDurationAt_in_range [OF i0, of v] h
    show "lookupIn (u_specificEdgeDurations p) (edgeIdAt v i)
            = Some (max 0 (Avg_Timings v ! nat (i + 1) - Avg_Timings v ! nat i)) \<and>
          (Avg_Timings v ! nat (i + 1) < Avg_Timings v ! nat i \<longrightarrow>
             lookupIn (u_specificEdgeDurations p) (edgeIdAt v i) = Some 0)"
      by simp
  qed
  have f: "\<forall>startIndex timings idxs. 0 \<le> fst (fold (occurrenceStep startIndex timings) idxs (0, 0))"
    by (simp add: occurrence_total_nonneg)
  have g: "\<forall>startIndex timings idx acc.
        occurrenceStep startIndex timings idx acc =
          (if 0 \<le> startIndex + int idx \<and> startIndex + int idx + 1 < int (length timings)
           then (fst acc + max 0 (timings ! nat (startIndex + int idx + 1)
                                    - timings ! nat (startIndex + int idx)),
                 snd acc + 1)
           else acc)"
    by (intro allI) (rule occurrenceStep_clamped)
  have h: "\<forall>startIndex timings idx acc.
        0 \<le> startIndex + int idx \<and> startIndex + int idx + 1 < int (length timings) \<and>
        timings ! nat (startIndex + int idx + 1) < timings ! nat (startIndex + int idx) \<longrightarrow>
        occurrenceStep startIndex timings idx acc = (fst acc, snd acc + 1)"
    by (simp add: occurrenceStep_clamped)
  have i: "\<forall>startIndex timings idxs.
        fold (occurrenceStep startIndex timings) idxs (0, 0) =
          (\<Sum>idx\<leftarrow>countedOccurrences startIndex timings idxs.
              max 0 (timings ! nat (startIndex + int idx + 1) - timings ! nat (startIndex + int idx)),
           length (countedOccurrences startIndex timings idxs))"
    by (intro allI) (rule fold_occurrenceStep_clamped)
  have j: "\<forall>fmt edge ap timings startIndex.
        lookupIn (u_specificEdgeDurations ap) (edge_id edge) = None \<and>
        u_variantTimings ap = Some timings \<and> u_startIndex ap = Some startIndex \<longrightarrow>
        calculateEdgeOverride fmt edge (Some ap) =
          (if countedOccurrences startIndex timings (edgeIndicesOf (edges ap) (edge_id edge)) \<noteq> []
           then Some (variantOverride fmt ap
                  (\<Sum>idx\<leftarrow>countedOccurrences startIndex timings
                                (edgeIndicesOf (edges ap) (edge_id edge)).
                      max 0 (timings ! nat (startIndex + int idx + 1)
                               - timings ! nat (startIndex + int idx)))
                  (length (countedOccurrences startIndex timings
                             (edgeIndicesOf (edges ap) (edge_id edge)))))
           else None)"
    by (intro allI impI, elim conjE) (rule variant_branch)
  have k: "\<forall>fmt ap tot n. displayLabel (variantOverride fmt ap tot n) = fmt tot"
    by (intro allI) (rule variantOverride_label)
  from a b c d e f g h i j k show ?thesis by (intro conjI)
qed

theorem edge_duration_clamped_witness:
  "\<exists>p. extractPath ''A'' ''C''
          \<lparr> Variant_Path = [''A'', ''B'', ''C''], Frequency = Some 2,
            Avg_Timings = [0, 10, 5], Total_Timings = [0, 20, 10] \<rparr> = Some p \<and>
       lookupIn (u_specificEdgeDurations p) ''B->C'' = Some 0 \<and>
       occurrenceStep 0 [10, 4] 0 (0, 0) = (0, 1) \<and>
       fold (occurrenceStep 0 [10, 4, 9]) [0, 1] (0, 0) = (5, 2)"
proof -
  let ?v = "\<lparr> Variant_Path = [''A'', ''B'', ''C''], Frequency = Some (2::nat),
              Avg_Timings = [0, 10, 5::real], Total_Timings = [0, 20, 10::real] \<rparr>"
  have si: "startIndexOf ''A'' (Variant_Path ?v) = 0"
    by (simp add: startIndexOf_def indexOf_def)
  have ei: "endIndexOf ''C'' (Variant_Path ?v) = 2"
    by (simp add: endIndexOf_def lastIndexOf_def)
  have "extractPath ''A'' ''C'' ?v \<noteq> None"
    unfolding extractPath_None_iff si ei by simp
  then obtain p where p: "extractPath ''A'' ''C'' ?v = Some p" by blast
  note w = edge_duration_clamped [OF p]
  from w have "\<forall>i. startIndexOf ''A'' (Variant_Path ?v) \<le> i \<and> i < endIndexOf ''C'' (Variant_Path ?v) \<and>
          i + 1 < int (length (Avg_Timings ?v)) \<and>
          (\<forall>j. i < j \<and> j < endIndexOf ''C'' (Variant_Path ?v) \<and>
               j + 1 < int (length (Avg_Timings ?v)) \<longrightarrow> edgeIdAt ?v j \<noteq> edgeIdAt ?v i) \<longrightarrow>
          lookupIn (u_specificEdgeDurations p) (edgeIdAt ?v i)
            = Some (max 0 (Avg_Timings ?v ! nat (i + 1) - Avg_Timings ?v ! nat i)) \<and>
          (Avg_Timings ?v ! nat (i + 1) < Avg_Timings ?v ! nat i \<longrightarrow>
             lookupIn (u_specificEdgeDurations p) (edgeIdAt ?v i) = Some 0)"
    by (elim conjE)
  then have "startIndexOf ''A'' (Variant_Path ?v) \<le> 1 \<and> 1 < endIndexOf ''C'' (Variant_Path ?v) \<and>
          1 + 1 < int (length (Avg_Timings ?v)) \<and>
          (\<forall>j. 1 < j \<and> j < endIndexOf ''C'' (Variant_Path ?v) \<and>
               j + 1 < int (length (Avg_Timings ?v)) \<longrightarrow> edgeIdAt ?v j \<noteq> edgeIdAt ?v 1) \<longrightarrow>
          (Avg_Timings ?v ! nat (1 + 1) < Avg_Timings ?v ! nat 1 \<longrightarrow>
             lookupIn (u_specificEdgeDurations p) (edgeIdAt ?v 1) = Some 0)"
    by blast
  moreover have "edgeIdAt ?v 1 = ''B->C''"
    by (simp add: edgeIdAt_def elemAt_def text_of_def edgeIdOf_def)
  moreover have "Avg_Timings ?v ! nat (1 + 1) < Avg_Timings ?v ! nat 1"
    by (simp add: numeral_2_eq_2)
  moreover have "\<forall>j::int. \<not> (1 < j \<and> j < 2)" by arith
  ultimately have l: "lookupIn (u_specificEdgeDurations p) ''B->C'' = Some 0"
    unfolding si ei by simp
  from w have "\<forall>startIndex timings idx acc.
        0 \<le> startIndex + int idx \<and> startIndex + int idx + 1 < int (length timings) \<and>
        timings ! nat (startIndex + int idx + 1) < timings ! nat (startIndex + int idx) \<longrightarrow>
        occurrenceStep startIndex timings idx acc = (fst acc, snd acc + 1)"
    by (elim conjE)
  then have "0 \<le> 0 + int 0 \<and> 0 + int 0 + 1 < int (length [10, 4::real]) \<and>
        [10, 4::real] ! nat (0 + int 0 + 1) < [10, 4] ! nat (0 + int 0) \<longrightarrow>
        occurrenceStep 0 [10, 4] 0 (0, 0) = (fst (0::real, 0::nat), snd (0::real, 0::nat) + 1)"
    by blast
  then have s: "occurrenceStep 0 [10, 4] 0 (0, 0) = (0, 1)" by simp
  from w have "\<forall>startIndex timings idxs.
        fold (occurrenceStep startIndex timings) idxs (0, 0) =
          (\<Sum>idx\<leftarrow>countedOccurrences startIndex timings idxs.
              max 0 (timings ! nat (startIndex + int idx + 1) - timings ! nat (startIndex + int idx)),
           length (countedOccurrences startIndex timings idxs))"
    by (elim conjE)
  then have "fold (occurrenceStep 0 [10, 4, 9]) [0, 1] (0, 0) =
          (\<Sum>idx\<leftarrow>countedOccurrences 0 [10, 4, 9] [0, 1].
              max 0 ([10, 4, 9] ! nat (0 + int idx + 1) - [10, 4, 9] ! nat (0 + int idx)),
           length (countedOccurrences 0 [10, 4, 9] [0, 1]))"
    by blast
  moreover have "countedOccurrences 0 [10, 4, 9::real] [0, 1] = [0, 1]"
    by (simp add: countedOccurrences_def elemAt_def)
  ultimately have t: "fold (occurrenceStep 0 [10, 4, 9]) [0, 1] (0, 0) = (5, 2)"
    by (simp add: numeral_2_eq_2)
  from p l s t show ?thesis by blast
qed

section \<open>Facts about grouping and merging\<close>

lemma orZero_simps [simp]: "orZero None = 0" "orZero (Some r) = r"
  by (simp_all add: orZero_def)

lemma weighted_fold_get:
  "distinct (map fst d) \<Longrightarrow>
     rec_get (fold (\<lambda>(edgeId, duration) w.
                rec_set edgeId (orZero (rec_get w edgeId) + duration * f) w) d m) e =
     (case map_of d e of
        Some duration \<Rightarrow> Some (orZero (rec_get m e) + duration * f)
      | None \<Rightarrow> rec_get m e)"
proof (induction d arbitrary: m)
  case Nil
  show ?case by simp
next
  case (Cons x d)
  obtain k dur where x: "x = (k, dur)" by (cases x)
  from Cons.prems x have dd: "distinct (map fst d)" and nk: "map_of d k = None"
    by (auto simp: map_of_eq_None_iff)
  show ?case
    using Cons.IH [OF dd, of "rec_set k (orZero (rec_get m k) + dur * f) m"] nk
    by (auto simp: x rec_get_set split: option.splits)
qed

lemma weighted_fold_distinct:
  "distinct (map fst m) \<Longrightarrow>
     distinct (map fst (fold (\<lambda>(edgeId, duration) w. rec_set edgeId (g w edgeId duration) w) d m))"
proof (induction d arbitrary: m)
  case Nil
  then show ?case by simp
next
  case (Cons x d)
  obtain k dur where x: "x = (k, dur)" by (cases x)
  from Cons.prems have "distinct (map fst (rec_set k (g m k dur) m))" by (rule distinct_rec_set)
  from Cons.IH [OF this] show ?case by (simp add: x)
qed

lemma plain_fold_get:
  "distinct (map fst d) \<Longrightarrow>
     rec_get (fold (\<lambda>(edgeId, duration) w. rec_set edgeId (h duration) w) d m) e =
     (case map_of d e of Some duration \<Rightarrow> Some (h duration) | None \<Rightarrow> rec_get m e)"
proof (induction d arbitrary: m)
  case Nil
  show ?case by simp
next
  case (Cons x d)
  obtain k dur where x: "x = (k, dur)" by (cases x)
  from Cons.prems x have dd: "distinct (map fst d)" and nk: "map_of d k = None"
    by (auto simp: map_of_eq_None_iff)
  show ?case
    using Cons.IH [OF dd, of "rec_set k (h dur) m"] nk
    by (auto simp: x rec_get_set split: option.splits)
qed

lemma rec_get_Nil [simp]: "rec_get [] e = None"
  by (simp add: rec_get_def)

lemma durationOf_alt: "durationOf p e = orZero (map_of (entries (u_specificEdgeDurations p)) e)"
  by (simp add: durationOf_def entries_def rec_get_def split: option.splits)

lemma totalOf_alt: "totalOf p e = orZero (map_of (entries (u_specificTotalDurations p)) e)"
  by (simp add: totalOf_def entries_def rec_get_def split: option.splits)

lemma recordsEdge_alt: "recordsEdge p e = (map_of (entries (u_specificEdgeDurations p)) e \<noteq> None)"
  by (simp add: recordsEdge_def entries_def rec_get_def split: option.splits)

lemma recordsTotal_alt: "recordsTotal p e = (map_of (entries (u_specificTotalDurations p)) e \<noteq> None)"
  by (simp add: recordsTotal_def entries_def rec_get_def split: option.splits)

lemma accumulate_fields:
  "totalFrequency (accumulate p g) = totalFrequency g + effFrequency p"
  "weightedTotalDuration (accumulate p g)
     = weightedTotalDuration g + orZero (totalDuration p) * real (effFrequency p)"
  "g_path (accumulate p g) = g_path g"
  by (simp_all add: accumulate_def Let_def)

lemma accumulate_weighted:
  assumes "recordedOnce p"
  shows "orZero (rec_get (weightedEdgeDurations (accumulate p g)) e)
           = orZero (rec_get (weightedEdgeDurations g) e) + durationOf p e * real (effFrequency p)"
    and "(rec_get (weightedEdgeDurations (accumulate p g)) e \<noteq> None)
           = (rec_get (weightedEdgeDurations g) e \<noteq> None \<or> recordsEdge p e)"
proof -
  from assms have d: "distinct (map fst (entries (u_specificEdgeDurations p)))"
    by (simp add: recordedOnce_def)
  have eq: "rec_get (weightedEdgeDurations (accumulate p g)) e =
      (case map_of (entries (u_specificEdgeDurations p)) e of
         Some duration \<Rightarrow> Some (orZero (rec_get (weightedEdgeDurations g) e)
                                 + duration * real (effFrequency p))
       | None \<Rightarrow> rec_get (weightedEdgeDurations g) e)"
    by (simp add: accumulate_def Let_def weighted_fold_get [OF d])
  show "orZero (rec_get (weightedEdgeDurations (accumulate p g)) e)
           = orZero (rec_get (weightedEdgeDurations g) e) + durationOf p e * real (effFrequency p)"
    by (simp add: eq durationOf_alt split: option.splits)
  show "(rec_get (weightedEdgeDurations (accumulate p g)) e \<noteq> None)
           = (rec_get (weightedEdgeDurations g) e \<noteq> None \<or> recordsEdge p e)"
    by (simp add: eq recordsEdge_alt split: option.splits)
qed

lemma summed_fold_get:
  "distinct (map fst d) \<Longrightarrow>
     rec_get (fold (\<lambda>(edgeId, totalDur) s.
                rec_set edgeId (orZero (rec_get s edgeId) + totalDur) s) d m) e =
     (case map_of d e of
        Some totalDur \<Rightarrow> Some (orZero (rec_get m e) + totalDur)
      | None \<Rightarrow> rec_get m e)"
proof (induction d arbitrary: m)
  case Nil
  show ?case by simp
next
  case (Cons x d)
  obtain k dur where x: "x = (k, dur)" by (cases x)
  from Cons.prems x have dd: "distinct (map fst d)" and nk: "map_of d k = None"
    by (auto simp: map_of_eq_None_iff)
  show ?case
    using Cons.IH [OF dd, of "rec_set k (orZero (rec_get m k) + dur) m"] nk
    by (auto simp: x rec_get_set split: option.splits)
qed

lemma accumulate_summed:
  assumes "recordedOnce p"
  shows "orZero (rec_get (summedEdgeTotalDurations (accumulate p g)) e)
           = orZero (rec_get (summedEdgeTotalDurations g) e) + totalOf p e"
    and "(rec_get (summedEdgeTotalDurations (accumulate p g)) e \<noteq> None)
           = (rec_get (summedEdgeTotalDurations g) e \<noteq> None \<or> recordsTotal p e)"
proof -
  from assms have d: "distinct (map fst (entries (u_specificTotalDurations p)))"
    by (simp add: recordedOnce_def)
  have eq: "rec_get (summedEdgeTotalDurations (accumulate p g)) e =
      (case map_of (entries (u_specificTotalDurations p)) e of
         Some totalDur \<Rightarrow> Some (orZero (rec_get (summedEdgeTotalDurations g) e) + totalDur)
       | None \<Rightarrow> rec_get (summedEdgeTotalDurations g) e)"
    by (simp add: accumulate_def Let_def summed_fold_get [OF d])
  show "orZero (rec_get (summedEdgeTotalDurations (accumulate p g)) e)
           = orZero (rec_get (summedEdgeTotalDurations g) e) + totalOf p e"
    by (simp add: eq totalOf_alt split: option.splits)
  show "(rec_get (summedEdgeTotalDurations (accumulate p g)) e \<noteq> None)
           = (rec_get (summedEdgeTotalDurations g) e \<noteq> None \<or> recordsTotal p e)"
    by (simp add: eq recordsTotal_alt split: option.splits)
qed

lemma accumulate_distinct:
  "distinct (map fst (weightedEdgeDurations g)) \<Longrightarrow>
     distinct (map fst (weightedEdgeDurations (accumulate p g)))"
  "distinct (map fst (summedEdgeTotalDurations g)) \<Longrightarrow>
     distinct (map fst (summedEdgeTotalDurations (accumulate p g)))"
  by (simp_all add: accumulate_def Let_def weighted_fold_distinct)

lemma newGroup_fields:
  "totalFrequency (newGroup p) = effFrequency p"
  "weightedTotalDuration (newGroup p) = orZero (totalDuration p) * real (effFrequency p)"
  "g_path (newGroup p) = p"
  "distinct (map fst (weightedEdgeDurations (newGroup p)))"
  "distinct (map fst (summedEdgeTotalDurations (newGroup p)))"
  by (simp_all add: newGroup_def Let_def weighted_fold_distinct)

lemma newGroup_weighted:
  assumes "recordedOnce p"
  shows "orZero (rec_get (weightedEdgeDurations (newGroup p)) e)
           = durationOf p e * real (effFrequency p)"
    and "(rec_get (weightedEdgeDurations (newGroup p)) e \<noteq> None) = recordsEdge p e"
    and "orZero (rec_get (summedEdgeTotalDurations (newGroup p)) e) = totalOf p e"
    and "(rec_get (summedEdgeTotalDurations (newGroup p)) e \<noteq> None) = recordsTotal p e"
proof -
  from assms have d: "distinct (map fst (entries (u_specificEdgeDurations p)))"
    and t: "distinct (map fst (entries (u_specificTotalDurations p)))"
    by (simp_all add: recordedOnce_def)
  have eq: "rec_get (weightedEdgeDurations (newGroup p)) e =
      (case map_of (entries (u_specificEdgeDurations p)) e of
         Some duration \<Rightarrow> Some (duration * real (effFrequency p)) | None \<Rightarrow> None)"
    by (simp add: newGroup_def Let_def plain_fold_get [OF d] split: option.splits)
  have eqt: "rec_get (summedEdgeTotalDurations (newGroup p)) e =
      (case map_of (entries (u_specificTotalDurations p)) e of
         Some totalDur \<Rightarrow> Some totalDur | None \<Rightarrow> None)"
    by (simp add: newGroup_def Let_def plain_fold_get [OF t] split: option.splits)
  show "orZero (rec_get (weightedEdgeDurations (newGroup p)) e)
           = durationOf p e * real (effFrequency p)"
    by (simp add: eq durationOf_alt split: option.splits)
  show "(rec_get (weightedEdgeDurations (newGroup p)) e \<noteq> None) = recordsEdge p e"
    by (simp add: eq recordsEdge_alt split: option.splits)
  show "orZero (rec_get (summedEdgeTotalDurations (newGroup p)) e) = totalOf p e"
    by (simp add: eqt totalOf_alt split: option.splits)
  show "(rec_get (summedEdgeTotalDurations (newGroup p)) e \<noteq> None) = recordsTotal p e"
    by (simp add: eqt recordsTotal_alt split: option.splits)
qed

lemma fold_accumulate:
  assumes "\<forall>p\<in>set rest. recordedOnce p"
  shows "totalFrequency (fold accumulate rest g) = totalFrequency g + (\<Sum>p\<leftarrow>rest. effFrequency p)"
    and "weightedTotalDuration (fold accumulate rest g)
           = weightedTotalDuration g + (\<Sum>p\<leftarrow>rest. orZero (totalDuration p) * real (effFrequency p))"
    and "g_path (fold accumulate rest g) = g_path g"
    and "orZero (rec_get (weightedEdgeDurations (fold accumulate rest g)) e)
           = orZero (rec_get (weightedEdgeDurations g) e)
             + (\<Sum>p\<leftarrow>rest. durationOf p e * real (effFrequency p))"
    and "(rec_get (weightedEdgeDurations (fold accumulate rest g)) e \<noteq> None)
           = (rec_get (weightedEdgeDurations g) e \<noteq> None \<or> (\<exists>p\<in>set rest. recordsEdge p e))"
    and "orZero (rec_get (summedEdgeTotalDurations (fold accumulate rest g)) e)
           = orZero (rec_get (summedEdgeTotalDurations g) e) + (\<Sum>p\<leftarrow>rest. totalOf p e)"
    and "(rec_get (summedEdgeTotalDurations (fold accumulate rest g)) e \<noteq> None)
           = (rec_get (summedEdgeTotalDurations g) e \<noteq> None \<or> (\<exists>p\<in>set rest. recordsTotal p e))"
    and "distinct (map fst (weightedEdgeDurations g)) \<Longrightarrow>
           distinct (map fst (weightedEdgeDurations (fold accumulate rest g)))"
  using assms
proof (induction rest arbitrary: g)
  case Nil
  { case 1 show ?case by simp }
  { case 2 show ?case by simp }
  { case 3 show ?case by simp }
  { case 4 show ?case by simp }
  { case 5 show ?case by simp }
  { case 6 show ?case by simp }
  { case 7 show ?case by simp }
  { case 8 then show ?case by simp }
next
  case (Cons p rest)
  { case 1 with Cons.IH(1) [of "accumulate p g"] show ?case
      by (simp add: accumulate_fields) }
  { case 2 with Cons.IH(2) [of "accumulate p g"] show ?case
      by (simp add: accumulate_fields) }
  { case 3 with Cons.IH(3) [of "accumulate p g"] show ?case
      by (simp add: accumulate_fields) }
  { case 4 with Cons.IH(4) [of "accumulate p g"] show ?case
      by (simp add: accumulate_weighted) }
  { case 5
    then have r: "recordedOnce p" and rs: "\<forall>p\<in>set rest. recordedOnce p" by simp_all
    from Cons.IH(5) [OF rs, of "accumulate p g"] accumulate_weighted(2) [OF r, of g e]
    show ?case by (auto simp del: not_None_eq) }
  { case 6 with Cons.IH(6) [of "accumulate p g"] show ?case
      by (simp add: accumulate_summed) }
  { case 7
    then have r: "recordedOnce p" and rs: "\<forall>p\<in>set rest. recordedOnce p" by simp_all
    from Cons.IH(7) [OF rs, of "accumulate p g"] accumulate_summed(2) [OF r, of g e]
    show ?case by (auto simp del: not_None_eq) }
  { case 8 with Cons.IH(8) [of "accumulate p g"] show ?case
      by (simp add: accumulate_distinct) }
qed

lemma groupStep_get:
  "rec_get (groupStep p m) k =
     (if pathKey p = k
      then Some (case rec_get m k of Some g \<Rightarrow> accumulate p g | None \<Rightarrow> newGroup p)
      else rec_get m k)"
  by (simp add: groupStep_def Let_def rec_get_set split: option.splits)

lemma groupStep_distinct: "distinct (map fst m) \<Longrightarrow> distinct (map fst (groupStep p m))"
  by (simp add: groupStep_def Let_def distinct_rec_set split: option.splits)

lemma fold_groupStep_distinct:
  "distinct (map fst m) \<Longrightarrow> distinct (map fst (fold groupStep ps m))"
  by (induction ps arbitrary: m) (simp_all add: groupStep_distinct)

lemma fold_groupStep_get:
  "rec_get (fold groupStep ps m) k =
     (case rec_get m k of
        Some g \<Rightarrow> Some (fold accumulate (filter (\<lambda>p. pathKey p = k) ps) g)
      | None \<Rightarrow>
          (case filter (\<lambda>p. pathKey p = k) ps of
             [] \<Rightarrow> None
           | p # rest \<Rightarrow> Some (fold accumulate rest (newGroup p))))"
proof (induction ps arbitrary: m)
  case Nil
  show ?case by (simp split: option.splits)
next
  case (Cons p ps)
  show ?case
    using Cons.IH [of "groupStep p m"]
    by (simp add: groupStep_get split: option.splits)
qed

lemma groupPaths_distinct: "distinct (map fst (groupPaths ps))"
  by (simp add: groupPaths_def fold_groupStep_distinct)

lemma groupPaths_get:
  "rec_get (groupPaths ps) k =
     (case filter (\<lambda>p. pathKey p = k) ps of
        [] \<Rightarrow> None
      | p # rest \<Rightarrow> Some (fold accumulate rest (newGroup p)))"
  by (simp add: groupPaths_def fold_groupStep_get)

lemma groupPaths_entry:
  assumes "(k, g) \<in> set (groupPaths ps)"
  shows "\<exists>p rest. filter (\<lambda>p. pathKey p = k) ps = p # rest \<and> g = fold accumulate rest (newGroup p)"
proof -
  from assms groupPaths_distinct [of ps] have "rec_get (groupPaths ps) k = Some g"
    by (simp add: rec_get_def)
  then show ?thesis
    by (simp add: groupPaths_get split: list.splits)
qed

lemma groupPaths_member:
  assumes "q \<in> set ps"
  shows "\<exists>g. (pathKey q, g) \<in> set (groupPaths ps)"
proof -
  from assms have "filter (\<lambda>p. pathKey p = pathKey q) ps \<noteq> []"
    by (auto simp: filter_empty_conv)
  then obtain p rest where "filter (\<lambda>p. pathKey p = pathKey q) ps = p # rest"
    by (cases "filter (\<lambda>p. pathKey p = pathKey q) ps") auto
  then have "rec_get (groupPaths ps) (pathKey q) = Some (fold accumulate rest (newGroup p))"
    by (simp add: groupPaths_get)
  then show ?thesis by (auto simp: rec_get_def dest: map_of_SomeD)
qed

lemma single_entry:
  "distinct (map fst al) \<Longrightarrow> (k, v) \<in> set al \<Longrightarrow> filter (\<lambda>kv. fst kv = k) al = [(k, v)]"
proof (induction al)
  case Nil
  then show ?case by simp
next
  case (Cons x al)
  show ?case
  proof (cases "fst x = k")
    case True
    with Cons.prems have "x = (k, v)" by (cases x) (auto simp: image_iff)
    moreover from Cons.prems True have "filter (\<lambda>kv. fst kv = k) al = []"
      by (auto simp: filter_empty_conv image_iff)
    ultimately show ?thesis by simp
  next
    case False
    with Cons show ?thesis by auto
  qed
qed

lemma mergePath_fields:
  "nodes (mergePath g) = nodes (g_path g)"
  "pathKey (mergePath g) = pathKey (g_path g)"
  "frequency (mergePath g) = Some (totalFrequency g)"
  "freqOrZero (mergePath g) = totalFrequency g"
  "totalDuration (mergePath g) = Some (weightedTotalDuration g / real (totalFrequency g))"
  "u_specificTotalDurations (mergePath g) = Some (summedEdgeTotalDurations g)"
  by (simp_all add: mergePath_def Let_def pathKey_def freqOrZero_def)

lemma mergePath_average:
  assumes "distinct (map fst (weightedEdgeDurations g))"
  shows "\<exists>m. u_specificEdgeDurations (mergePath g) = Some m \<and>
           rec_get m e = map_option (\<lambda>w. w / real (totalFrequency g)) (rec_get (weightedEdgeDurations g) e)"
proof -
  let ?m = "fold (\<lambda>(edgeId, weightedTotal) a.
                    rec_set edgeId (weightedTotal / real (totalFrequency g)) a)
                 (weightedEdgeDurations g) []"
  have "u_specificEdgeDurations (mergePath g) = Some ?m"
    by (simp add: mergePath_def Let_def)
  moreover have "rec_get ?m e
      = map_option (\<lambda>w. w / real (totalFrequency g)) (rec_get (weightedEdgeDurations g) e)"
    by (simp add: plain_fold_get [OF assms] rec_get_def [of "weightedEdgeDurations g"]
          split: option.splits)
  ultimately show ?thesis by blast
qed

lemma insort_key_sum:
  "sum_list (map f (insort_key h x xs)) = (f :: 'a \<Rightarrow> nat) x + sum_list (map f xs)"
  by (induction xs) (auto simp: add.left_commute)

lemma sort_key_sum: "sum_list (map f (sort_key h xs)) = sum_list (map (f :: 'a \<Rightarrow> nat) xs)"
  by (induction xs) (simp_all add: sort_key_def insort_key_sum)

lemma extractPath_recordedOnce:
  assumes "extractPath startId endId v = Some p"
  shows "recordedOnce p"
proof (cases "Avg_Timings v = []")
  case True
  with extractPath_timed(4,5) [OF assms] show ?thesis
    by (simp add: recordedOnce_def entries_def)
next
  case False
  let ?st = "timingLoop v (startIndexOf startId (Variant_Path v)) (endIndexOf endId (Variant_Path v))
               \<lparr> acc_totalDuration = 0, acc_edgeDurations = [], acc_edgeTotalDurations = [] \<rparr>"
  have "distinct (map fst (acc_edgeDurations ?st)) \<and> distinct (map fst (acc_edgeTotalDurations ?st))"
    by (rule timingLoop_distinct) simp_all
  with extractPath_timed(1,2) [OF assms False] show ?thesis
    by (simp add: recordedOnce_def entries_def)
qed

lemma extractPaths_member:
  "(p \<in> set (extractPaths startId endId vs)) = (\<exists>v\<in>set vs. extractPath startId endId v = Some p)"
  by (auto simp: extractPaths_def List.map_filter_def image_iff)

lemma extractPaths_recordedOnce: "\<forall>p\<in>set (extractPaths startId endId vs). recordedOnce p"
  by (auto simp: extractPaths_member intro: extractPath_recordedOnce)

lemma findPaths_unfold:
  "findPathsBetweenNodes startId endId vs
     = sortByFrequency (map (mergePath \<circ> snd) (groupPaths (extractPaths startId endId vs)))"
proof (cases "vs = []")
  case True
  then show ?thesis
    by (simp add: findPathsBetweenNodes_def extractPaths_def List.map_filter_def groupPaths_def
          sortByFrequency_def)
next
  case False
  then show ?thesis by (simp add: findPathsBetweenNodes_def)
qed

lemma fold_accumulate_path: "g_path (fold accumulate rest g) = g_path g"
  by (induction rest arbitrary: g) (simp_all add: accumulate_fields)

lemma group_key:
  assumes "kg \<in> set (groupPaths ps)"
  shows "pathKey (mergePath (snd kg)) = fst kg"
proof -
  obtain k g where kg: "kg = (k, g)" by (cases kg)
  from groupPaths_entry [of k g ps] assms kg obtain p rest
    where f: "filter (\<lambda>p. pathKey p = k) ps = p # rest" and g: "g = fold accumulate rest (newGroup p)"
    by auto
  from f have "p \<in> set (filter (\<lambda>p. pathKey p = k) ps)" by simp
  then have "pathKey p = k" by simp
  moreover have "g_path g = p"
    unfolding g by (simp add: fold_accumulate_path newGroup_fields)
  ultimately show ?thesis by (simp add: kg mergePath_fields)
qed

lemma merged_group:
  assumes q: "q \<in> set ps" and once: "\<forall>p\<in>set ps. recordedOnce p"
  defines "grp \<equiv> filter (\<lambda>p. pathKey p = pathKey q) ps"
  shows "\<exists>g p rest. grp = p # rest \<and> g = fold accumulate rest (newGroup p) \<and>
           filter (\<lambda>m. pathKey m = pathKey q)
             (sortByFrequency (map (mergePath \<circ> snd) (groupPaths ps))) = [mergePath g]"
proof -
  from groupPaths_member [OF q] obtain g where g: "(pathKey q, g) \<in> set (groupPaths ps)" by blast
  from groupPaths_entry [OF g] obtain p rest
    where f: "grp = p # rest" and gd: "g = fold accumulate rest (newGroup p)"
    unfolding grp_def by blast
  have "filter (\<lambda>m. pathKey m = pathKey q) (map (mergePath \<circ> snd) (groupPaths ps))
      = map (mergePath \<circ> snd) (filter (\<lambda>kg. pathKey (mergePath (snd kg)) = pathKey q) (groupPaths ps))"
    by (simp add: filter_map comp_def)
  also have "filter (\<lambda>kg. pathKey (mergePath (snd kg)) = pathKey q) (groupPaths ps)
      = filter (\<lambda>kg. fst kg = pathKey q) (groupPaths ps)"
    by (rule filter_cong) (simp_all add: group_key)
  also have "\<dots> = [(pathKey q, g)]"
    by (rule single_entry [OF groupPaths_distinct g])
  finally have "filter (\<lambda>m. pathKey m = pathKey q) (map (mergePath \<circ> snd) (groupPaths ps))
      = [mergePath g]" by (simp add: comp_def)
  then have "filter (\<lambda>m. pathKey m = pathKey q)
      (sortByFrequency (map (mergePath \<circ> snd) (groupPaths ps))) = [mergePath g]"
    by (simp add: sortByFrequency_def filter_sort)
  with f gd show ?thesis by blast
qed

lemma group_values:
  assumes once: "\<forall>p\<in>set (p # rest). recordedOnce p"
  defines "g \<equiv> fold accumulate rest (newGroup p)"
  defines "totalFreq \<equiv> (\<Sum>x\<leftarrow>p # rest. effFrequency x)"
  shows "nodes (mergePath g) = nodes p"
    and "frequency (mergePath g) = Some totalFreq"
    and "lookupIn (u_specificEdgeDurations (mergePath g)) e =
           (if \<exists>x\<in>set (p # rest). recordsEdge x e
            then Some ((\<Sum>x\<leftarrow>p # rest. durationOf x e * real (effFrequency x)) / real totalFreq)
            else None)"
    and "lookupIn (u_specificTotalDurations (mergePath g)) e =
           (if \<exists>x\<in>set (p # rest). recordsTotal x e
            then Some (\<Sum>x\<leftarrow>p # rest. totalOf x e)
            else None)"
    and "totalDuration (mergePath g) =
           Some ((\<Sum>x\<leftarrow>p # rest. orZero (totalDuration x) * real (effFrequency x)) / real totalFreq)"
proof -
  from once have op: "recordedOnce p" and orest: "\<forall>x\<in>set rest. recordedOnce x" by simp_all
  note fa = fold_accumulate [OF orest, of "newGroup p"]
  have tf: "totalFrequency g = totalFreq"
    unfolding g_def totalFreq_def by (simp add: fa(1) newGroup_fields)
  show "nodes (mergePath g) = nodes p"
    unfolding g_def by (simp add: mergePath_fields fa(3) newGroup_fields)
  show "frequency (mergePath g) = Some totalFreq"
    by (simp add: mergePath_fields tf)
  show "totalDuration (mergePath g) =
           Some ((\<Sum>x\<leftarrow>p # rest. orZero (totalDuration x) * real (effFrequency x)) / real totalFreq)"
    unfolding mergePath_fields tf unfolding g_def by (simp add: fa(2) newGroup_fields)
  have wz: "orZero (rec_get (weightedEdgeDurations g) e)
      = (\<Sum>x\<leftarrow>p # rest. durationOf x e * real (effFrequency x))"
    unfolding g_def by (simp add: fa(4) newGroup_weighted [OF op])
  have wp: "(rec_get (weightedEdgeDurations g) e \<noteq> None) = (\<exists>x\<in>set (p # rest). recordsEdge x e)"
    unfolding g_def fa(5) newGroup_weighted(2) [OF op] by simp
  have dg: "distinct (map fst (weightedEdgeDurations g))"
    unfolding g_def by (rule fa(8)) (rule newGroup_fields)
  from mergePath_average [OF dg, of e] obtain m
    where m: "u_specificEdgeDurations (mergePath g) = Some m"
      and me: "rec_get m e = map_option (\<lambda>w. w / real (totalFrequency g)) (rec_get (weightedEdgeDurations g) e)"
    by blast
  show "lookupIn (u_specificEdgeDurations (mergePath g)) e =
           (if \<exists>x\<in>set (p # rest). recordsEdge x e
            then Some ((\<Sum>x\<leftarrow>p # rest. durationOf x e * real (effFrequency x)) / real totalFreq)
            else None)"
  proof (cases "rec_get (weightedEdgeDurations g) e")
    case None
    with wp have "\<not> (\<exists>x\<in>set (p # rest). recordsEdge x e)" by simp
    with None m me show ?thesis by (simp add: lookupIn_def)
  next
    case (Some w)
    with wp have ex: "\<exists>x\<in>set (p # rest). recordsEdge x e" by simp
    from Some wz have "w = (\<Sum>x\<leftarrow>p # rest. durationOf x e * real (effFrequency x))" by simp
    with Some m me ex tf show ?thesis by (simp add: lookupIn_def)
  qed
  have sz: "orZero (rec_get (summedEdgeTotalDurations g) e) = (\<Sum>x\<leftarrow>p # rest. totalOf x e)"
    unfolding g_def by (simp add: fa(6) newGroup_weighted [OF op])
  have sp: "(rec_get (summedEdgeTotalDurations g) e \<noteq> None) = (\<exists>x\<in>set (p # rest). recordsTotal x e)"
    unfolding g_def fa(7) newGroup_weighted(4) [OF op] by simp
  show "lookupIn (u_specificTotalDurations (mergePath g)) e =
           (if \<exists>x\<in>set (p # rest). recordsTotal x e
            then Some (\<Sum>x\<leftarrow>p # rest. totalOf x e)
            else None)"
  proof (cases "rec_get (summedEdgeTotalDurations g) e")
    case None
    with sp have "\<not> (\<exists>x\<in>set (p # rest). recordsTotal x e)" by simp
    with None show ?thesis by (simp add: lookupIn_def mergePath_fields)
  next
    case (Some w)
    with sp have ex: "\<exists>x\<in>set (p # rest). recordsTotal x e" by simp
    from Some sz have "w = (\<Sum>x\<leftarrow>p # rest. totalOf x e)" by simp
    with Some ex show ?thesis by (simp add: lookupIn_def mergePath_fields)
  qed
qed

lemma update_absent: "map_of al k = None \<Longrightarrow> AList.update k v al = al @ [(k, v)]"
  by (induction al) (auto split: if_splits)

lemma update_present_sum:
  "map_of al k = Some v \<Longrightarrow>
     sum_list (map (f \<circ> snd) (AList.update k v' al)) + f v
       = sum_list (map (f \<circ> snd) al) + (f v' :: nat)"
  by (induction al) (auto split: if_splits)

lemma groupStep_sum:
  "sum_list (map (totalFrequency \<circ> snd) (groupStep p m))
     = sum_list (map (totalFrequency \<circ> snd) m) + effFrequency p"
proof (cases "rec_get m (pathKey p)")
  case None
  then show ?thesis
    by (simp add: groupStep_def Let_def rec_set_def rec_get_def update_absent newGroup_fields)
next
  case (Some g)
  then have "map_of m (pathKey p) = Some g" by (simp add: rec_get_def)
  from update_present_sum [OF this, of totalFrequency "accumulate p g"] Some
  show ?thesis
    by (simp add: groupStep_def Let_def rec_set_def accumulate_fields)
qed

lemma groupPaths_sum:
  "sum_list (map (totalFrequency \<circ> snd) (fold groupStep ps m))
     = sum_list (map (totalFrequency \<circ> snd) m) + (\<Sum>p\<leftarrow>ps. effFrequency p)"
  by (induction ps arbitrary: m) (simp_all add: groupStep_sum)

lemma findPaths_sum:
  "(\<Sum>m\<leftarrow>findPathsBetweenNodes startId endId vs. freqOrZero m)
     = (\<Sum>p\<leftarrow>extractPaths startId endId vs. effFrequency p)"
proof -
  have "(\<Sum>m\<leftarrow>findPathsBetweenNodes startId endId vs. freqOrZero m)
      = sum_list (map freqOrZero (map (mergePath \<circ> snd) (groupPaths (extractPaths startId endId vs))))"
    by (simp only: findPaths_unfold sortByFrequency_def sort_key_sum)
  also have "\<dots> = sum_list (map (totalFrequency \<circ> snd) (groupPaths (extractPaths startId endId vs)))"
    by (simp add: comp_def mergePath_fields)
  also have "\<dots> = (\<Sum>p\<leftarrow>extractPaths startId endId vs. effFrequency p)"
    by (simp add: groupPaths_def groupPaths_sum)
  finally show ?thesis .
qed

lemma extractPath_frequency:
  "extractPath startId endId v = Some p \<Longrightarrow> effFrequency p = countedFrequency v"
  using extractPath_Some_fields(5) [of startId endId v p]
  by (simp add: effFrequency_def countedFrequency_def)

lemma extractPaths_Cons:
  "extractPaths startId endId (v # vs) =
     (case extractPath startId endId v of
        None \<Rightarrow> extractPaths startId endId vs
      | Some p \<Rightarrow> p # extractPaths startId endId vs)"
  by (simp add: extractPaths_def split: option.splits)

lemma extractPaths_filter_sum:
  "(\<Sum>p\<leftarrow>filter P (extractPaths startId endId vs). effFrequency p)
     = (\<Sum>v\<leftarrow>filter (\<lambda>v. case extractPath startId endId v of Some p \<Rightarrow> P p | None \<Rightarrow> False) vs.
          countedFrequency v)"
proof (induction vs)
  case Nil
  show ?case by (simp add: extractPaths_def)
next
  case (Cons v vs)
  then show ?case
    by (cases "extractPath startId endId v")
       (simp_all add: extractPaths_Cons extractPath_frequency)
qed

lemma extractPaths_filter_length:
  "length (filter P (extractPaths startId endId vs))
     = length (filter (\<lambda>v. case extractPath startId endId v of Some p \<Rightarrow> P p | None \<Rightarrow> False) vs)"
proof (induction vs)
  case Nil
  show ?case by (simp add: extractPaths_def)
next
  case (Cons v vs)
  then show ?case
    by (cases "extractPath startId endId v") (simp_all add: extractPaths_Cons)
qed

lemma qualifies_iff: "qualifies startId endId v = (extractPath startId endId v \<noteq> None)"
  by (auto simp: qualifies_def extractPath_None_iff)

lemma effFrequency_pos: "1 \<le> effFrequency p"
  by (simp add: effFrequency_def split: option.splits)

lemma length_le_sum: "length xs \<le> (\<Sum>p\<leftarrow>xs. effFrequency p)"
proof (induction xs)
  case Nil
  show ?case by simp
next
  case (Cons x xs)
  with effFrequency_pos [of x] show ?case by simp
qed

lemma findPaths_member:
  assumes "m \<in> set (findPathsBetweenNodes startId endId vs)"
  shows "\<exists>q\<in>set (extractPaths startId endId vs). pathKey q = pathKey m \<and>
           filter (\<lambda>x. pathKey x = pathKey q) (findPathsBetweenNodes startId endId vs) = [m]"
proof -
  let ?ps = "extractPaths startId endId vs"
  from assms obtain kg where kg: "kg \<in> set (groupPaths ?ps)" and m: "m = mergePath (snd kg)"
    by (auto simp: findPaths_unfold sortByFrequency_def)
  obtain k g where kgd: "kg = (k, g)" by (cases kg)
  from groupPaths_entry [of k g ?ps] kg kgd obtain p rest
    where f: "filter (\<lambda>p. pathKey p = k) ?ps = p # rest" by blast
  then have "p \<in> set (filter (\<lambda>p. pathKey p = k) ?ps)" by simp
  then have p: "p \<in> set ?ps" "pathKey p = k" by simp_all
  from group_key [OF kg] m kgd have km: "pathKey m = k" by simp
  from merged_group [OF p(1) extractPaths_recordedOnce] obtain g'
    where one: "filter (\<lambda>x. pathKey x = pathKey p) (findPathsBetweenNodes startId endId vs) = [mergePath g']"
    unfolding findPaths_unfold by blast
  from assms km p(2) have "m \<in> set (filter (\<lambda>x. pathKey x = pathKey p) (findPathsBetweenNodes startId endId vs))"
    by simp
  with one have "m = mergePath g'" by simp
  with one p km show ?thesis by auto
qed

lemma filter_length_mono:
  "(\<And>x. x \<in> set xs \<Longrightarrow> P x \<Longrightarrow> Q x) \<Longrightarrow> length (filter P xs) \<le> length (filter Q xs)"
  by (induction xs) auto

lemma positive_frequency: "frequency p = Some f \<Longrightarrow> 0 < f \<Longrightarrow> effFrequency p = freqOrZero p"
  by (simp add: effFrequency_def freqOrZero_def)

section \<open>The merged path of a group\<close>

text \<open>
  Claim C1, as the code has it. Paths are grouped by their nodes joined with \<open>->\<close>.
  For every group of extracted paths with the same joined node sequence the aggregator
  puts out exactly one merged path; it carries the nodes of the group's first path; its
  frequency is the sum of the group's frequencies, a frequency of \<open>0\<close> or a missing
  one counting as \<open>1\<close> (\<open>path.frequency || 1\<close>); for every edge id that some path of
  the group records, its average duration is the sum of duration times counted
  frequency over the group divided by the summed counted frequencies (a path that does
  not record the edge adds \<open>0\<close> to the numerator), and its total duration is the plain
  sum of the group's total durations. Where every frequency of the group is positive the
  counted frequencies are the recorded ones. For frequencies 1 and 3 with durations 10
  and 30 the merged average is 25 and the merged total 40.
\<close>

theorem aggregate_group:
  fixes startId endId :: string and variantList :: "Variant list" and q :: ExtendedPath
  defines "paths \<equiv> extractPaths startId endId variantList"
  defines "grp \<equiv> filter (\<lambda>p. pathKey p = pathKey q) paths"
  defines "totalFreq \<equiv> (\<Sum>p\<leftarrow>grp. effFrequency p)"
  assumes "q \<in> set paths"
  shows "\<exists>m. filter (\<lambda>m. pathKey m = pathKey q) (findPathsBetweenNodes startId endId variantList) = [m] \<and>
           nodes m = nodes (hd grp) \<and>
           frequency m = Some totalFreq \<and>
           (\<forall>e. lookupIn (u_specificEdgeDurations m) e =
              (if \<exists>p\<in>set grp. recordsEdge p e
               then Some ((\<Sum>p\<leftarrow>grp. durationOf p e * real (effFrequency p)) / real totalFreq)
               else None)) \<and>
           (\<forall>e. lookupIn (u_specificTotalDurations m) e =
              (if \<exists>p\<in>set grp. recordsTotal p e
               then Some (\<Sum>p\<leftarrow>grp. totalOf p e)
               else None)) \<and>
           ((\<forall>p\<in>set grp. \<exists>f. frequency p = Some f \<and> 0 < f) \<longrightarrow>
              totalFreq = (\<Sum>p\<leftarrow>grp. freqOrZero p) \<and>
              (\<forall>e. (\<Sum>p\<leftarrow>grp. durationOf p e * real (effFrequency p))
                     = (\<Sum>p\<leftarrow>grp. durationOf p e * real (freqOrZero p))))"
proof -
  have once: "\<forall>p\<in>set paths. recordedOnce p"
    unfolding paths_def by (rule extractPaths_recordedOnce)
  from merged_group [OF assms(4) once] obtain g p rest
    where f: "grp = p # rest" and g: "g = fold accumulate rest (newGroup p)"
      and one: "filter (\<lambda>m. pathKey m = pathKey q)
             (findPathsBetweenNodes startId endId variantList) = [mergePath g]"
    unfolding grp_def findPaths_unfold paths_def by blast
  have "set grp \<subseteq> set paths" unfolding grp_def by auto
  with once f have o2: "\<forall>x\<in>set (p # rest). recordedOnce x" by auto
  note v = group_values [OF o2]
  have "nodes (mergePath g) = nodes (hd grp)" unfolding g f by (simp add: v(1))
  moreover have "frequency (mergePath g) = Some totalFreq" unfolding g f totalFreq_def by (rule v(2))
  moreover have "\<forall>e. lookupIn (u_specificEdgeDurations (mergePath g)) e =
              (if \<exists>p\<in>set grp. recordsEdge p e
               then Some ((\<Sum>p\<leftarrow>grp. durationOf p e * real (effFrequency p)) / real totalFreq)
               else None)"
    unfolding g f totalFreq_def by (intro allI) (rule v(3))
  moreover have "\<forall>e. lookupIn (u_specificTotalDurations (mergePath g)) e =
              (if \<exists>p\<in>set grp. recordsTotal p e
               then Some (\<Sum>p\<leftarrow>grp. totalOf p e)
               else None)"
    unfolding g f by (intro allI) (rule v(4))
  moreover have "(\<forall>p\<in>set grp. \<exists>f. frequency p = Some f \<and> 0 < f) \<longrightarrow>
              totalFreq = (\<Sum>p\<leftarrow>grp. freqOrZero p) \<and>
              (\<forall>e. (\<Sum>p\<leftarrow>grp. durationOf p e * real (effFrequency p))
                     = (\<Sum>p\<leftarrow>grp. durationOf p e * real (freqOrZero p)))"
  proof
    assume pos: "\<forall>p\<in>set grp. \<exists>f. frequency p = Some f \<and> 0 < f"
    then have eq: "\<And>p. p \<in> set grp \<Longrightarrow> effFrequency p = freqOrZero p"
      by (auto simp: positive_frequency)
    then have "map effFrequency grp = map freqOrZero grp" by (intro map_cong refl)
    then have "totalFreq = (\<Sum>p\<leftarrow>grp. freqOrZero p)"
      unfolding totalFreq_def by (rule arg_cong)
    moreover have "\<forall>e. (\<Sum>p\<leftarrow>grp. durationOf p e * real (effFrequency p))
                     = (\<Sum>p\<leftarrow>grp. durationOf p e * real (freqOrZero p))"
    proof
      fix e
      from eq have "map (\<lambda>p. durationOf p e * real (effFrequency p)) grp
          = map (\<lambda>p. durationOf p e * real (freqOrZero p)) grp"
        by (intro map_cong refl) simp
      then show "(\<Sum>p\<leftarrow>grp. durationOf p e * real (effFrequency p))
                     = (\<Sum>p\<leftarrow>grp. durationOf p e * real (freqOrZero p))"
        by (rule arg_cong)
    qed
    ultimately show "totalFreq = (\<Sum>p\<leftarrow>grp. freqOrZero p) \<and>
              (\<forall>e. (\<Sum>p\<leftarrow>grp. durationOf p e * real (effFrequency p))
                     = (\<Sum>p\<leftarrow>grp. durationOf p e * real (freqOrZero p)))" ..
  qed
  ultimately show ?thesis using one by blast
qed

theorem aggregate_group_witness:
  "\<exists>m. filter (\<lambda>m. pathKey m = ''A->B'')
          (findPathsBetweenNodes ''A'' ''B''
             [\<lparr> Variant_Path = [''A'', ''B''], Frequency = Some 1,
                 Avg_Timings = [0, 10], Total_Timings = [0, 10] \<rparr>,
              \<lparr> Variant_Path = [''A'', ''B''], Frequency = Some 3,
                 Avg_Timings = [0, 30], Total_Timings = [0, 30] \<rparr>]) = [m] \<and>
        frequency m = Some 4 \<and>
        lookupIn (u_specificEdgeDurations m) ''A->B'' = Some 25 \<and>
        lookupIn (u_specificTotalDurations m) ''A->B'' = Some 40"
proof -
  let ?v1 = "\<lparr> Variant_Path = [''A'', ''B''], Frequency = Some (1::nat),
               Avg_Timings = [0, 10::real], Total_Timings = [0, 10::real] \<rparr>"
  let ?v2 = "\<lparr> Variant_Path = [''A'', ''B''], Frequency = Some (3::nat),
               Avg_Timings = [0, 30::real], Total_Timings = [0, 30::real] \<rparr>"
  let ?ps = "extractPaths ''A'' ''B'' [?v1, ?v2]"
  obtain p1 p2 where ps: "?ps = [p1, p2]"
    and k: "pathKey p1 = ''A->B''" "pathKey p2 = ''A->B''"
    and f: "effFrequency p1 = 1" "effFrequency p2 = 3"
    and d: "durationOf p1 ''A->B'' = 10" "durationOf p2 ''A->B'' = 30"
    and t: "totalOf p1 ''A->B'' = 10" "totalOf p2 ''A->B'' = 30"
    and r: "recordsEdge p1 ''A->B''" "recordsTotal p1 ''A->B''"
    by (simp add: extractPaths_def List.map_filter_def extractPath_def startIndexOf_def
          endIndexOf_def indexOf_def lastIndexOf_def slice_def Let_def timingLoop.simps
          timingStep_def avgDurationAt_def totalTimingDurationAt_def edgeIdAt_def elemAt_def
          text_of_def edgeIdOf_def rec_set_def rec_get_def pathKey_def effFrequency_def
          durationOf_def totalOf_def recordsEdge_def recordsTotal_def)
  have mem: "p1 \<in> set ?ps" unfolding ps by simp
  from aggregate_group [OF mem] obtain m
    where one: "filter (\<lambda>m. pathKey m = pathKey p1)
                  (findPathsBetweenNodes ''A'' ''B'' [?v1, ?v2]) = [m]"
      and fr: "frequency m = Some (\<Sum>p\<leftarrow>filter (\<lambda>p. pathKey p = pathKey p1) ?ps. effFrequency p)"
      and av: "\<forall>e. lookupIn (u_specificEdgeDurations m) e =
              (if \<exists>p\<in>set (filter (\<lambda>p. pathKey p = pathKey p1) ?ps). recordsEdge p e
               then Some ((\<Sum>p\<leftarrow>filter (\<lambda>p. pathKey p = pathKey p1) ?ps.
                              durationOf p e * real (effFrequency p))
                          / real (\<Sum>p\<leftarrow>filter (\<lambda>p. pathKey p = pathKey p1) ?ps. effFrequency p))
               else None)"
      and tot: "\<forall>e. lookupIn (u_specificTotalDurations m) e =
              (if \<exists>p\<in>set (filter (\<lambda>p. pathKey p = pathKey p1) ?ps). recordsTotal p e
               then Some (\<Sum>p\<leftarrow>filter (\<lambda>p. pathKey p = pathKey p1) ?ps. totalOf p e)
               else None)"
    by blast
  have grp: "filter (\<lambda>p. pathKey p = pathKey p1) ?ps = [p1, p2]"
    unfolding ps by (simp add: k)
  from one have "filter (\<lambda>m. pathKey m = ''A->B'')
                  (findPathsBetweenNodes ''A'' ''B'' [?v1, ?v2]) = [m]"
    by (simp only: k)
  moreover from fr have "frequency m = Some 4" unfolding grp by (simp add: f)
  moreover from spec [OF av, of "''A->B''"]
  have "lookupIn (u_specificEdgeDurations m) ''A->B'' = Some 25"
    unfolding grp by (simp add: f d r)
  moreover from spec [OF tot, of "''A->B''"]
  have "lookupIn (u_specificTotalDurations m) ''A->B'' = Some 40"
    unfolding grp by (simp add: t r)
  ultimately show ?thesis by blast
qed

text \<open>
  As stated, with the plain sum of the frequencies, the claim fails where a frequency is
  \<open>0\<close>: two variants on the path A, B with frequencies 0 and 3 merge to frequency 4,
  while the recorded frequencies of the group sum to 3.
\<close>

theorem aggregate_group_counterexample:
  "map frequency
     (findPathsBetweenNodes ''A'' ''B''
        [\<lparr> Variant_Path = [''A'', ''B''], Frequency = Some 0,
            Avg_Timings = [0, 10], Total_Timings = [0, 10] \<rparr>,
         \<lparr> Variant_Path = [''A'', ''B''], Frequency = Some 3,
            Avg_Timings = [0, 30], Total_Timings = [0, 30] \<rparr>]) = [Some 4] \<and>
   sum_list (map freqOrZero
     (filter (\<lambda>p. nodes p = [''A'', ''B''])
        (extractPaths ''A'' ''B''
           [\<lparr> Variant_Path = [''A'', ''B''], Frequency = Some 0,
               Avg_Timings = [0, 10], Total_Timings = [0, 10] \<rparr>,
            \<lparr> Variant_Path = [''A'', ''B''], Frequency = Some 3,
               Avg_Timings = [0, 30], Total_Timings = [0, 30] \<rparr>]))) = 3"
  by code_simp

section \<open>Frequency conservation\<close>

text \<open>
  Claim C4, as the code has it. For every query over a list of variants, the frequencies
  of the aggregator's output paths sum to the counted frequencies of the qualifying
  variants (those with both endpoints found and the start before the end), where a
  variant counts with its own frequency, or with \<open>1\<close> when that is \<open>0\<close> or missing:
  the grouping drops no trace and counts none twice. Where every qualifying variant has
  a positive frequency, this is the plain sum of their frequencies.
\<close>

theorem frequency_conservation:
  "(\<Sum>m\<leftarrow>findPathsBetweenNodes startId endId variantList. freqOrZero m)
     = (\<Sum>v\<leftarrow>filter (qualifies startId endId) variantList. countedFrequency v) \<and>
   ((\<forall>v\<in>set (filter (qualifies startId endId) variantList). \<exists>f. Frequency v = Some f \<and> 0 < f) \<longrightarrow>
      (\<Sum>m\<leftarrow>findPathsBetweenNodes startId endId variantList. freqOrZero m)
        = (\<Sum>v\<leftarrow>filter (qualifies startId endId) variantList. recordedFrequency v))"
proof -
  have "(\<lambda>v. case extractPath startId endId v of Some p \<Rightarrow> True | None \<Rightarrow> False)
      = qualifies startId endId"
    by (rule ext) (simp add: qualifies_iff split: option.splits)
  with extractPaths_filter_sum [of "\<lambda>_. True" startId endId variantList]
  have a: "(\<Sum>m\<leftarrow>findPathsBetweenNodes startId endId variantList. freqOrZero m)
     = (\<Sum>v\<leftarrow>filter (qualifies startId endId) variantList. countedFrequency v)"
    by (simp add: findPaths_sum)
  have "(\<forall>v\<in>set (filter (qualifies startId endId) variantList). \<exists>f. Frequency v = Some f \<and> 0 < f) \<longrightarrow>
      (\<Sum>v\<leftarrow>filter (qualifies startId endId) variantList. countedFrequency v)
        = (\<Sum>v\<leftarrow>filter (qualifies startId endId) variantList. recordedFrequency v)"
  proof
    assume "\<forall>v\<in>set (filter (qualifies startId endId) variantList). \<exists>f. Frequency v = Some f \<and> 0 < f"
    then have "map countedFrequency (filter (qualifies startId endId) variantList)
        = map recordedFrequency (filter (qualifies startId endId) variantList)"
      by (intro map_cong refl) (auto simp: countedFrequency_def recordedFrequency_def)
    then show "(\<Sum>v\<leftarrow>filter (qualifies startId endId) variantList. countedFrequency v)
        = (\<Sum>v\<leftarrow>filter (qualifies startId endId) variantList. recordedFrequency v)"
      by (rule arg_cong)
  qed
  with a show ?thesis by simp
qed

theorem frequency_conservation_witness:
  "(\<Sum>m\<leftarrow>findPathsBetweenNodes ''A'' ''C''
        [\<lparr> Variant_Path = [''A'', ''B'', ''C''], Frequency = Some 2,
            Avg_Timings = [0, 10, 30], Total_Timings = [0, 20, 60] \<rparr>,
         \<lparr> Variant_Path = [''A'', ''C''], Frequency = Some 5,
            Avg_Timings = [0, 7], Total_Timings = [0, 35] \<rparr>,
         \<lparr> Variant_Path = [''C'', ''A''], Frequency = Some 4,
            Avg_Timings = [0, 1], Total_Timings = [0, 4] \<rparr>]. freqOrZero m) = 7"
proof -
  let ?vs = "[\<lparr> Variant_Path = [''A'', ''B'', ''C''], Frequency = Some (2::nat),
                 Avg_Timings = [0, 10, 30::real], Total_Timings = [0, 20, 60::real] \<rparr>,
              \<lparr> Variant_Path = [''A'', ''C''], Frequency = Some 5,
                 Avg_Timings = [0, 7], Total_Timings = [0, 35] \<rparr>,
              \<lparr> Variant_Path = [''C'', ''A''], Frequency = Some 4,
                 Avg_Timings = [0, 1], Total_Timings = [0, 4] \<rparr>]"
  have q: "filter (qualifies ''A'' ''C'') ?vs = [?vs ! 0, ?vs ! 1]"
    by (simp add: qualifies_def startIndexOf_def endIndexOf_def indexOf_def lastIndexOf_def)
  have pos: "\<forall>v\<in>set (filter (qualifies ''A'' ''C'') ?vs). \<exists>f. Frequency v = Some f \<and> 0 < f"
    unfolding q by simp
  have s: "(\<Sum>v\<leftarrow>filter (qualifies ''A'' ''C'') ?vs. recordedFrequency v) = 7"
    unfolding q by (simp add: recordedFrequency_def)
  from frequency_conservation [of "''A''" "''C''" ?vs] pos
  have "(\<Sum>m\<leftarrow>findPathsBetweenNodes ''A'' ''C'' ?vs. freqOrZero m)
        = (\<Sum>v\<leftarrow>filter (qualifies ''A'' ''C'') ?vs. recordedFrequency v)"
    by blast
  then show ?thesis unfolding s .
qed

text \<open>
  With the recorded frequencies the sums differ: one qualifying variant of frequency
  \<open>0\<close> gives an output path of frequency 1.
\<close>

theorem frequency_conservation_counterexample:
  "(\<Sum>m\<leftarrow>findPathsBetweenNodes ''A'' ''B''
        [\<lparr> Variant_Path = [''A'', ''B''], Frequency = Some 0,
            Avg_Timings = [0, 10], Total_Timings = [0, 10] \<rparr>]. freqOrZero m) = 1 \<and>
   (\<Sum>v\<leftarrow>filter (qualifies ''A'' ''B'')
        [\<lparr> Variant_Path = [''A'', ''B''], Frequency = Some 0,
            Avg_Timings = [0, 10], Total_Timings = [0, 10] \<rparr>].
      recordedFrequency v) = 0"
  by code_simp

section \<open>Zero and missing frequencies\<close>

text \<open>
  Claim C10. The frequency of every merged path is the sum, over the qualifying variants
  of its group, of the counted frequency: the variant's own, or \<open>1\<close> when its
  \<open>Frequency\<close> is \<open>0\<close> or missing. The path's duration is weighted with the same
  counted frequencies. Hence the merged frequency is at least the number of qualifying
  variants whose sliced node sequence is the merged path's.
\<close>

theorem counted_frequency:
  assumes "m \<in> set (findPathsBetweenNodes startId endId variantList)"
  shows
    "frequency m =
       Some (\<Sum>v\<leftarrow>filter (\<lambda>v. case extractPath startId endId v of
                                 Some p \<Rightarrow> pathKey p = pathKey m | None \<Rightarrow> False) variantList.
               countedFrequency v) \<and>
     (\<forall>v. (Frequency v = None \<or> Frequency v = Some 0 \<longrightarrow> countedFrequency v = 1) \<and>
          (\<forall>f. Frequency v = Some f \<and> f \<noteq> 0 \<longrightarrow> countedFrequency v = f)) \<and>
     totalDuration m =
       Some ((\<Sum>p\<leftarrow>filter (\<lambda>p. pathKey p = pathKey m) (extractPaths startId endId variantList).
                orZero (totalDuration p) * real (effFrequency p))
             / real (\<Sum>p\<leftarrow>filter (\<lambda>p. pathKey p = pathKey m) (extractPaths startId endId variantList).
                       effFrequency p)) \<and>
     length (filter (\<lambda>v. case extractPath startId endId v of
                           Some p \<Rightarrow> nodes p = nodes m | None \<Rightarrow> False) variantList)
       \<le> freqOrZero m"
proof -
  let ?ps = "extractPaths startId endId variantList"
  let ?grp = "filter (\<lambda>p. pathKey p = pathKey m) ?ps"
  from findPaths_member [OF assms] obtain q
    where q: "q \<in> set ?ps" and qk: "pathKey q = pathKey m"
      and one: "filter (\<lambda>x. pathKey x = pathKey q) (findPathsBetweenNodes startId endId variantList) = [m]"
    by blast
  have once: "\<forall>p\<in>set ?ps. recordedOnce p" by (rule extractPaths_recordedOnce)
  from merged_group [OF q once] obtain g p rest
    where f: "?grp = p # rest" and g: "g = fold accumulate rest (newGroup p)"
      and one': "filter (\<lambda>x. pathKey x = pathKey q) (findPathsBetweenNodes startId endId variantList)
                   = [mergePath g]"
    unfolding findPaths_unfold qk by blast
  from one one' have m: "m = mergePath g" by simp
  have "set ?grp \<subseteq> set ?ps" by auto
  with once f have o2: "\<forall>x\<in>set (p # rest). recordedOnce x" by auto
  note v = group_values [OF o2]
  have fr: "frequency m = Some (\<Sum>p\<leftarrow>?grp. effFrequency p)"
    using v(2) unfolding g [symmetric] m [symmetric] f [symmetric] .
  have a: "frequency m =
       Some (\<Sum>v\<leftarrow>filter (\<lambda>v. case extractPath startId endId v of
                                 Some p \<Rightarrow> pathKey p = pathKey m | None \<Rightarrow> False) variantList.
               countedFrequency v)"
    unfolding fr extractPaths_filter_sum ..
  have b: "\<forall>v. (Frequency v = None \<or> Frequency v = Some 0 \<longrightarrow> countedFrequency v = 1) \<and>
          (\<forall>f. Frequency v = Some f \<and> f \<noteq> 0 \<longrightarrow> countedFrequency v = f)"
    by (auto simp: countedFrequency_def)
  have c: "totalDuration m =
       Some ((\<Sum>p\<leftarrow>?grp. orZero (totalDuration p) * real (effFrequency p))
             / real (\<Sum>p\<leftarrow>?grp. effFrequency p))"
    using v(5) unfolding g [symmetric] m [symmetric] f [symmetric] .
  have "length (filter (\<lambda>p. nodes p = nodes m) ?ps) \<le> length ?grp"
    by (rule filter_length_mono) (simp add: pathKey_def)
  also have "\<dots> \<le> (\<Sum>p\<leftarrow>?grp. effFrequency p)" by (rule length_le_sum)
  also from fr have "\<dots> = freqOrZero m" by (simp add: freqOrZero_def)
  finally have d: "length (filter (\<lambda>v. case extractPath startId endId v of
                           Some p \<Rightarrow> nodes p = nodes m | None \<Rightarrow> False) variantList)
       \<le> freqOrZero m"
    by (simp only: extractPaths_filter_length)
  from a b c d show ?thesis by blast
qed

theorem counted_frequency_witness:
  "\<exists>m. m \<in> set (findPathsBetweenNodes ''A'' ''B''
                    [\<lparr> Variant_Path = [''A'', ''B''], Frequency = Some 0,
                        Avg_Timings = [0, 10], Total_Timings = [0, 10] \<rparr>,
                     \<lparr> Variant_Path = [''A'', ''B''], Frequency = None,
                        Avg_Timings = [0, 30], Total_Timings = [0, 30] \<rparr>]) \<and>
        frequency m = Some 2"
proof -
  let ?vs = "[\<lparr> Variant_Path = [''A'', ''B''], Frequency = Some (0::nat),
                 Avg_Timings = [0, 10::real], Total_Timings = [0, 10::real] \<rparr>,
              \<lparr> Variant_Path = [''A'', ''B''], Frequency = None,
                 Avg_Timings = [0, 30], Total_Timings = [0, 30] \<rparr>]"
  have "map pathKey (findPathsBetweenNodes ''A'' ''B'' ?vs) = [''A->B'']"
    by code_simp
  then obtain m where out: "findPathsBetweenNodes ''A'' ''B'' ?vs = [m]"
    and k: "pathKey m = ''A->B''"
    by (cases "findPathsBetweenNodes ''A'' ''B'' ?vs") auto
  from out have mem: "m \<in> set (findPathsBetweenNodes ''A'' ''B'' ?vs)" by simp
  have s: "(\<Sum>v\<leftarrow>filter (\<lambda>v. case extractPath ''A'' ''B'' v of
                                 Some p \<Rightarrow> pathKey p = ''A->B'' | None \<Rightarrow> False) ?vs.
               countedFrequency v) = 2"
    by code_simp
  from counted_frequency [OF mem] have "frequency m =
       Some (\<Sum>v\<leftarrow>filter (\<lambda>v. case extractPath ''A'' ''B'' v of
                                 Some p \<Rightarrow> pathKey p = pathKey m | None \<Rightarrow> False) ?vs.
               countedFrequency v)"
    by (elim conjE)
  then have "frequency m = Some 2" unfolding k s .
  with mem show ?thesis by blast
qed

section \<open>Facts about ingestion\<close>

lemma ingestItem_edges:
  "snd (ingestItem sa ea item maps) =
     (if rec_get (snd maps) (itemEdgeId item) = None
      then rec_set (itemEdgeId item) (recordEdge item) (snd maps) else snd maps)"
  by (simp add: ingestItem_def Let_def itemEdgeId_def)

lemma fold_ingest_get:
  "rec_get (snd (fold (ingestItem sa ea) gd maps)) k =
     (case rec_get (snd maps) k of
        Some e \<Rightarrow> Some e
      | None \<Rightarrow> map_option recordEdge (find (\<lambda>r. itemEdgeId r = k) gd))"
proof (induction gd arbitrary: maps)
  case Nil
  show ?case by (simp split: option.splits)
next
  case (Cons item gd)
  show ?case
    using Cons.IH [of "ingestItem sa ea item maps"]
    by (auto simp: ingestItem_edges rec_get_set split: option.splits)
qed

lemma update_member:
  "(k', v') \<in> set (AList.update k v al) \<Longrightarrow> (k', v') = (k, v) \<or> (k', v') \<in> set al"
  by (induction al) (auto split: if_splits)

lemma keyed_set: "keyed m \<Longrightarrow> edge_id e = k \<Longrightarrow> keyed (rec_set k e m)"
  by (auto simp: keyed_def rec_set_def distinct_update dest: update_member)

lemma keyed_ingestItem: "keyed (snd maps) \<Longrightarrow> keyed (snd (ingestItem sa ea item maps))"
  by (simp add: ingestItem_edges keyed_set recordEdge_def itemEdgeId_def)

lemma keyed_fold_ingest: "keyed (snd maps) \<Longrightarrow> keyed (snd (fold (ingestItem sa ea) gd maps))"
  by (induction gd arbitrary: maps) (simp_all add: keyed_ingestItem)

lemma keyed_fold_set:
  "keyed m \<Longrightarrow> (\<And>t. edge_id (g t) = f t) \<Longrightarrow> keyed (fold (\<lambda>t m. rec_set (f t) (g t) m) ts m)"
  by (induction ts arbitrary: m) (simp_all add: keyed_set)

lemma fold_set_get:
  "k \<notin> f ` set ts \<Longrightarrow> rec_get (fold (\<lambda>t m. rec_set (f t) (g t) m) ts m) k = rec_get m k"
  by (induction ts arbitrary: m) (auto simp: rec_get_set)

lemma keyed_single:
  assumes "keyed m" and "rec_get m k = Some e"
  shows "filter (\<lambda>x. edge_id x = k) (map snd m) = [e]"
proof -
  from assms have mem: "(k, e) \<in> set m" by (auto simp: rec_get_def dest: map_of_SomeD)
  have "filter (\<lambda>x. edge_id x = k) (map snd m) = map snd (filter (\<lambda>kv. edge_id (snd kv) = k) m)"
    by (simp add: filter_map comp_def)
  also have "filter (\<lambda>kv. edge_id (snd kv) = k) m = filter (\<lambda>kv. fst kv = k) m"
    using assms(1) by (intro filter_cong) (auto simp: keyed_def)
  also have "\<dots> = [(k, e)]"
    using assms(1) mem by (intro single_entry) (simp_all add: keyed_def)
  finally show ?thesis by simp
qed

lemma ingestMaps_edges:
  assumes "find (\<lambda>r. itemEdgeId r = k) gd = Some first"
    and "k \<notin> (\<lambda>t. ''start-to-'' @ t) ` set sa" and "k \<notin> (\<lambda>s. s @ ''-to-end'') ` set ea"
  shows "keyed (snd (ingestMaps gd sa ea))"
    and "rec_get (snd (ingestMaps gd sa ea)) k = Some (recordEdge first)"
proof -
  let ?m0 = "snd (fold (ingestItem sa ea) gd ([], []))"
  let ?m1 = "fold (\<lambda>t m. rec_set (''start-to-'' @ t) (startEdge t) m)
               (filter (\<lambda>t. t \<in> validNodeIds gd) sa) ?m0"
  let ?m2 = "fold (\<lambda>s m. rec_set (s @ ''-to-end'') (endEdge s) m)
               (filter (\<lambda>s. s \<in> validNodeIds gd) ea) ?m1"
  have e: "snd (ingestMaps gd sa ea) = ?m2" by (simp add: ingestMaps_def Let_def)
  have k0: "keyed ?m0" by (rule keyed_fold_ingest) (simp add: keyed_def)
  have k1: "keyed ?m1" by (rule keyed_fold_set [OF k0]) (simp add: startEdge_def)
  have k2: "keyed ?m2" by (rule keyed_fold_set [OF k1]) (simp add: endEdge_def)
  from k2 e show "keyed (snd (ingestMaps gd sa ea))" by simp
  have "rec_get ?m0 k = Some (recordEdge first)"
    using assms(1) by (simp add: fold_ingest_get)
  moreover from assms(2) have "rec_get ?m1 k = rec_get ?m0 k"
    by (intro fold_set_get) auto
  moreover from assms(3) have "rec_get ?m2 k = rec_get ?m1 k"
    by (intro fold_set_get) auto
  ultimately show "rec_get (snd (ingestMaps gd sa ea)) k = Some (recordEdge first)"
    by (simp add: e)
qed

section \<open>Duplicate edge records\<close>

text \<open>
  Claim C2, as the code has it. The ingestor writes an edge only when its id is not in
  the map yet (\<open>if (!edgesMap.has(edgeId))\<close>), so for records sharing one
  \<open>source->target\<close> id the first write wins: the output graph has exactly one edge
  with that id, and it carries the label, weight, case count, mean duration and tooltip
  texts of the first such record. (The id must not be that of an anchor edge, which is
  written afterwards without the guard.)
\<close>

theorem first_record_wins:
  assumes "find (\<lambda>r. itemEdgeId r = k) graphData = Some first"
    and "k \<notin> (\<lambda>t. ''start-to-'' @ t) ` set startActivities"
    and "k \<notin> (\<lambda>s. s @ ''-to-end'') ` set endActivities"
  shows "filter (\<lambda>e. edge_id e = k)
           (allEdges (processInitialData graphData startActivities endActivities s))
           = [recordEdge first] \<and>
         edge_label (recordEdge first) = Some (item_Edge_Label first) \<and>
         Weight_Value (edge_data (recordEdge first)) = Some (item_Weight_Value first) \<and>
         Case_Count (edge_data (recordEdge first)) = Some (item_Case_Count first) \<and>
         Mean_Duration_Seconds (edge_data (recordEdge first)) = Some (item_Mean_Duration_Seconds first) \<and>
         Tooltip_Total_Time (edge_data (recordEdge first)) = Some (item_Tooltip_Total_Time first) \<and>
         Tooltip_Mean_Time (edge_data (recordEdge first)) = Some (item_Tooltip_Mean_Time first)"
proof -
  from keyed_single [OF ingestMaps_edges [OF assms]]
  have "filter (\<lambda>e. edge_id e = k)
           (allEdges (processInitialData graphData startActivities endActivities s))
           = [recordEdge first]"
    by (simp add: processInitialData_def Let_def)
  then show ?thesis by (simp add: recordEdge_def noData_def)
qed

theorem first_record_wins_witness:
  "find (\<lambda>r. itemEdgeId r = ''A->B'')
     [\<lparr> item_Source_Activity = ''A'', item_Target_Activity = ''B'',
         item_Mean_Duration_Seconds = 5, item_Tooltip_Total_Time = ''5 s'',
         item_Tooltip_Mean_Time = ''5 s'', item_Weight_Value = 1,
         item_Edge_Label = ''first'', item_Case_Count = 1 \<rparr>,
      \<lparr> item_Source_Activity = ''A'', item_Target_Activity = ''B'',
         item_Mean_Duration_Seconds = 7, item_Tooltip_Total_Time = ''14 s'',
         item_Tooltip_Mean_Time = ''7 s'', item_Weight_Value = 2,
         item_Edge_Label = ''second'', item_Case_Count = 2 \<rparr>]
     = Some \<lparr> item_Source_Activity = ''A'', item_Target_Activity = ''B'',
              item_Mean_Duration_Seconds = 5, item_Tooltip_Total_Time = ''5 s'',
              item_Tooltip_Mean_Time = ''5 s'', item_Weight_Value = 1,
              item_Edge_Label = ''first'', item_Case_Count = 1 \<rparr> \<and>
   ''A->B'' \<notin> (\<lambda>t. ''start-to-'' @ t) ` set [''A''] \<and>
   ''A->B'' \<notin> (\<lambda>s. s @ ''-to-end'') ` set [''B''] \<and>
   map (\<lambda>e. (Weight_Value (edge_data e), edge_label e))
     (filter (\<lambda>e. edge_id e = ''A->B'')
        (allEdges (processInitialData
           [\<lparr> item_Source_Activity = ''A'', item_Target_Activity = ''B'',
               item_Mean_Duration_Seconds = 5, item_Tooltip_Total_Time = ''5 s'',
               item_Tooltip_Mean_Time = ''5 s'', item_Weight_Value = 1,
               item_Edge_Label = ''first'', item_Case_Count = 1 \<rparr>,
            \<lparr> item_Source_Activity = ''A'', item_Target_Activity = ''B'',
               item_Mean_Duration_Seconds = 7, item_Tooltip_Total_Time = ''14 s'',
               item_Tooltip_Mean_Time = ''7 s'', item_Weight_Value = 2,
               item_Edge_Label = ''second'', item_Case_Count = 2 \<rparr>]
           [''A''] [''B''] initialState)))
     = [(Some 1, Some ''first'')]"
proof -
  let ?r1 = "\<lparr> item_Source_Activity = ''A'', item_Target_Activity = ''B'',
               item_Mean_Duration_Seconds = 5, item_Tooltip_Total_Time = ''5 s'',
               item_Tooltip_Mean_Time = ''5 s'', item_Weight_Value = 1,
               item_Edge_Label = ''first'', item_Case_Count = 1 \<rparr>"
  let ?r2 = "\<lparr> item_Source_Activity = ''A'', item_Target_Activity = ''B'',
               item_Mean_Duration_Seconds = 7, item_Tooltip_Total_Time = ''14 s'',
               item_Tooltip_Mean_Time = ''7 s'', item_Weight_Value = 2,
               item_Edge_Label = ''second'', item_Case_Count = 2 \<rparr>"
  have f: "find (\<lambda>r. itemEdgeId r = ''A->B'') [?r1, ?r2] = Some ?r1"
    by (simp add: itemEdgeId_def edgeIdOf_def)
  have a: "''A->B'' \<notin> (\<lambda>t. ''start-to-'' @ t) ` set [''A'']" by simp
  have b: "''A->B'' \<notin> (\<lambda>s. s @ ''-to-end'') ` set [''B'']" by simp
  from first_record_wins [OF f a b, of initialState]
  have "filter (\<lambda>e. edge_id e = ''A->B'')
          (allEdges (processInitialData [?r1, ?r2] [''A''] [''B''] initialState))
          = [recordEdge ?r1]"
    by (elim conjE)
  then have "map (\<lambda>e. (Weight_Value (edge_data e), edge_label e))
     (filter (\<lambda>e. edge_id e = ''A->B'')
        (allEdges (processInitialData [?r1, ?r2] [''A''] [''B''] initialState)))
     = [(Some 1, Some ''first'')]"
    by (simp add: recordEdge_def noData_def)
  with f a b show ?thesis by blast
qed

text \<open>
  The claim as stated, last write wins, fails: of two records for A->B with weights 1
  and 2 the graph keeps weight 1, case count 1 and the label of the first.
\<close>

theorem last_write_wins_counterexample:
  "map (\<lambda>e. (edge_id e, Weight_Value (edge_data e), Case_Count (edge_data e), edge_label e))
     (allEdges (processInitialData
        [\<lparr> item_Source_Activity = ''A'', item_Target_Activity = ''B'',
            item_Mean_Duration_Seconds = 5, item_Tooltip_Total_Time = ''5 s'',
            item_Tooltip_Mean_Time = ''5 s'', item_Weight_Value = 1,
            item_Edge_Label = ''first'', item_Case_Count = 1 \<rparr>,
         \<lparr> item_Source_Activity = ''A'', item_Target_Activity = ''B'',
            item_Mean_Duration_Seconds = 7, item_Tooltip_Total_Time = ''14 s'',
            item_Tooltip_Mean_Time = ''7 s'', item_Weight_Value = 2,
            item_Edge_Label = ''second'', item_Case_Count = 2 \<rparr>] [] [] initialState))
   = [(''A->B'', Some 1, Some 1, Some ''first'')]"
  by code_simp

section \<open>The subgraph filter\<close>

text \<open>
  Claim C5, as the code has it. With an empty set of kept node ids the node filter is
  skipped: the node list passes unchanged, and the edge list passes unchanged when no
  kept-edge-id set is given or it is empty. The edge filter is a step of its own, so a
  non-empty kept-edge-id set still restricts the edges to those ids.
\<close>

theorem empty_selection_keeps_graph:
  assumes "filteredNodeIds config = {}"
  shows "fst (subgraphFilter config g) = fst g \<and>
         snd (subgraphFilter config g) =
           (case filteredEdgeIds config of
              None \<Rightarrow> snd g
            | Some ids \<Rightarrow> if ids = {} then snd g else filter (\<lambda>edge. edge_id edge \<in> ids) (snd g)) \<and>
         (filteredEdgeIds config = None \<longrightarrow> subgraphFilter config g = g) \<and>
         (filteredEdgeIds config = Some {} \<longrightarrow> subgraphFilter config g = g)"
  using assms
  by (cases g) (auto simp: subgraphFilter_def applyNodeFilter_def applyEdgeFilter_def Let_def
        split: option.splits)

theorem empty_selection_keeps_graph_witness:
  "filteredNodeIds \<lparr> colorPaletteKey = ''default'', filteredNodeIds = {},
                      filteredEdgeIds = None, activePathInfo = None,
                      searchCasePathInfo = None \<rparr> = {} \<and>
   subgraphFilter
     \<lparr> colorPaletteKey = ''default'', filteredNodeIds = {}, filteredEdgeIds = None,
       activePathInfo = None, searchCasePathInfo = None \<rparr>
     ([activityNode [] [] ''A'', activityNode [] [] ''B''],
      [overlayEdge False ''A->B'', overlayEdge False ''B->A''])
   = ([activityNode [] [] ''A'', activityNode [] [] ''B''],
      [overlayEdge False ''A->B'', overlayEdge False ''B->A''])"
proof -
  let ?c = "\<lparr> colorPaletteKey = ''default'', filteredNodeIds = {} :: string set,
              filteredEdgeIds = None, activePathInfo = None, searchCasePathInfo = None \<rparr>"
  have e: "filteredNodeIds ?c = {}" by simp
  have n: "filteredEdgeIds ?c = None" by simp
  from empty_selection_keeps_graph [OF e, of "([activityNode [] [] ''A'', activityNode [] [] ''B''],
      [overlayEdge False ''A->B'', overlayEdge False ''B->A''])"] n
  have "subgraphFilter ?c ([activityNode [] [] ''A'', activityNode [] [] ''B''],
      [overlayEdge False ''A->B'', overlayEdge False ''B->A''])
    = ([activityNode [] [] ''A'', activityNode [] [] ''B''],
      [overlayEdge False ''A->B'', overlayEdge False ''B->A''])"
    by blast
  with e show ?thesis by blast
qed

text \<open>
  As stated, for every input, the claim fails: with no kept node and the kept edge ids
  \<open>{A->B}\<close>, of the edges A->B and B->A only A->B is left.
\<close>

theorem empty_selection_counterexample:
  "map edge_id (snd (subgraphFilter
     \<lparr> colorPaletteKey = ''default'', filteredNodeIds = {},
       filteredEdgeIds = Some {''A->B''}, activePathInfo = None,
       searchCasePathInfo = None \<rparr>
     ([activityNode [] [] ''A'', activityNode [] [] ''B''],
      [overlayEdge False ''A->B'', overlayEdge False ''B->A''])))
   = [''A->B''] \<and>
   map edge_id [overlayEdge False ''A->B'', overlayEdge False ''B->A''] = [''A->B'', ''B->A'']"
  by (simp add: subgraphFilter_def applyNodeFilter_def applyEdgeFilter_def Let_def overlayEdge_def)

section \<open>Facts about the overlay\<close>

lemma overlay_ids [simp]:
  "node_id (overlayNode ghost i) = i" "edge_id (overlayEdge ghost i) = i"
  by (simp_all add: overlayNode_def overlayEdge_def Let_def)

lemma injectNodes_ids:
  "map node_id (injectNodes ghost ids ns)
     = map node_id ns @ filter (\<lambda>i. i \<notin> node_id ` set ns) ids"
  by (simp add: injectNodes_def Let_def comp_def)

lemma injectEdges_ids:
  "map edge_id (injectEdges ghost ids es)
     = map edge_id es @ filter (\<lambda>i. i \<notin> edge_id ` set es) ids"
  by (simp add: injectEdges_def Let_def comp_def)

lemma injectNodes_prefix:
  "injectNodes ghost ids ns = ns @ map (overlayNode ghost) (filter (\<lambda>i. i \<notin> node_id ` set ns) ids)"
  by (simp add: injectNodes_def Let_def)

lemma injectEdges_prefix:
  "injectEdges ghost ids es = es @ map (overlayEdge ghost) (filter (\<lambda>i. i \<notin> edge_id ` set es) ids)"
  by (simp add: injectEdges_def Let_def)

lemma injectNodes_covers: "set ids \<subseteq> node_id ` set (injectNodes ghost ids ns)"
proof -
  have "set ids \<subseteq> set (map node_id (injectNodes ghost ids ns))"
    unfolding injectNodes_ids by auto
  then show ?thesis by simp
qed

lemma injectEdges_covers: "set ids \<subseteq> edge_id ` set (injectEdges ghost ids es)"
proof -
  have "set ids \<subseteq> set (map edge_id (injectEdges ghost ids es))"
    unfolding injectEdges_ids by auto
  then show ?thesis by simp
qed

lemma injectNodes_distinct:
  "distinct (map node_id ns) \<Longrightarrow> distinct ids \<Longrightarrow> distinct (map node_id (injectNodes ghost ids ns))"
  unfolding injectNodes_ids by auto

lemma injectEdges_distinct:
  "distinct (map edge_id es) \<Longrightarrow> distinct ids \<Longrightarrow> distinct (map edge_id (injectEdges ghost ids es))"
  unfolding injectEdges_ids by auto

section \<open>Ghost overlay injection\<close>

text \<open>
  Claim C6, as the code has it. For every filtered graph and every active path, the
  overlay keeps the graph's nodes and edges as they are, in place, and appends one ghost
  per listed id that the graph does not have: every node id in the path's node list and
  every edge id in the path's edge list is in the result, so are the consecutive-pair
  edge ids when the edge list holds them (the callers compute them), and the ids of the
  result are distinct when the graph's ids are and the path lists no id twice. Without an
  active path the graph is returned as it is.
\<close>

theorem ghost_overlay_additive:
  fixes ap :: ActivePathInfo and ns :: "Node list" and es :: "Edge list"
  defines "r \<equiv> ghostOverlay (Some ap) (ns, es)"
  shows
    "fst r = ns @ map (overlayNode True) (filter (\<lambda>i. i \<notin> node_id ` set ns) (ap_nodes ap)) \<and>
     snd r = es @ map (overlayEdge True) (filter (\<lambda>i. i \<notin> edge_id ` set es) (ap_edges ap)) \<and>
     set (ap_nodes ap) \<subseteq> node_id ` set (fst r) \<and>
     set (ap_edges ap) \<subseteq> edge_id ` set (snd r) \<and>
     (set (pairEdges (ap_nodes ap)) \<subseteq> set (ap_edges ap) \<longrightarrow>
        set (pairEdges (ap_nodes ap)) \<subseteq> edge_id ` set (snd r)) \<and>
     (distinct (map node_id ns) \<and> distinct (ap_nodes ap) \<longrightarrow> distinct (map node_id (fst r))) \<and>
     (distinct (map edge_id es) \<and> distinct (ap_edges ap) \<longrightarrow> distinct (map edge_id (snd r))) \<and>
     ghostOverlay None (ns, es) = (ns, es)"
proof -
  have f: "fst r = injectNodes True (ap_nodes ap) ns" and s: "snd r = injectEdges True (ap_edges ap) es"
    by (simp_all add: r_def ghostOverlay_def)
  show ?thesis
    unfolding f s
    using injectNodes_covers [of "ap_nodes ap" True ns] injectEdges_covers [of "ap_edges ap" True es]
      injectNodes_distinct [of ns "ap_nodes ap" True] injectEdges_distinct [of es "ap_edges ap" True]
    by (auto simp: injectNodes_prefix [symmetric] injectEdges_prefix [symmetric] ghostOverlay_def)
qed

theorem ghost_overlay_additive_witness:
  "set (pairEdges [''A'', ''B'']) \<subseteq> set [''A->B''] \<and>
   distinct (map node_id [activityNode [] [] ''A'']) \<and> distinct [''A'', ''B''] \<and>
   distinct (map edge_id ([] :: Edge list)) \<and> distinct [''A->B''] \<and>
   set (pairEdges [''A'', ''B''])
     \<subseteq> edge_id ` set (snd (ghostOverlay
           (Some \<lparr> ap_nodes = [''A'', ''B''], ap_edges = [''A->B''],
                   edgeDurations = None, edgeTotalDurations = None, ap_frequency = None \<rparr>)
           ([activityNode [] [] ''A''], []))) \<and>
   distinct (map node_id (fst (ghostOverlay
           (Some \<lparr> ap_nodes = [''A'', ''B''], ap_edges = [''A->B''],
                   edgeDurations = None, edgeTotalDurations = None, ap_frequency = None \<rparr>)
           ([activityNode [] [] ''A''], [])))) \<and>
   distinct (map edge_id (snd (ghostOverlay
           (Some \<lparr> ap_nodes = [''A'', ''B''], ap_edges = [''A->B''],
                   edgeDurations = None, edgeTotalDurations = None, ap_frequency = None \<rparr>)
           ([activityNode [] [] ''A''], []))))"
proof -
  let ?ap = "\<lparr> ap_nodes = [''A'', ''B''], ap_edges = [''A->B''],
               edgeDurations = None, edgeTotalDurations = None, ap_frequency = None \<rparr>"
  have p: "set (pairEdges (ap_nodes ?ap)) \<subseteq> set (ap_edges ?ap)"
    by (simp add: pairEdges_def edgeIdOf_def)
  have dn: "distinct (map node_id [activityNode [] [] ''A'']) \<and> distinct (ap_nodes ?ap)" by simp
  have de: "distinct (map edge_id ([] :: Edge list)) \<and> distinct (ap_edges ?ap)" by simp
  note w = ghost_overlay_additive [of ?ap "[activityNode [] [] ''A'']" "[]"]
  from w p have "set (pairEdges (ap_nodes ?ap))
      \<subseteq> edge_id ` set (snd (ghostOverlay (Some ?ap) ([activityNode [] [] ''A''], [])))"
    by blast
  moreover from w dn
  have "distinct (map node_id (fst (ghostOverlay (Some ?ap) ([activityNode [] [] ''A''], []))))"
    by blast
  moreover from w de
  have "distinct (map edge_id (snd (ghostOverlay (Some ?ap) ([activityNode [] [] ''A''], []))))"
    by blast
  ultimately show ?thesis using p dn de by simp
qed

text \<open>
  As stated the claim fails on two counts at one input. For the empty graph and a path
  with nodes A, B, A and an empty edge list, the result has the node id A twice (an id
  is only compared with the graph's, not with the other injected ones), and no edge
  A->B or B->A at all (the edges come from the path's edge list, not from the pairs).
\<close>

theorem ghost_overlay_counterexample:
  "map node_id (fst (ghostOverlay
      (Some \<lparr> ap_nodes = [''A'', ''B'', ''A''], ap_edges = [],
              edgeDurations = None, edgeTotalDurations = None, ap_frequency = None \<rparr>)
      ([], []))) = [''A'', ''B'', ''A''] \<and>
   map edge_id (snd (ghostOverlay
      (Some \<lparr> ap_nodes = [''A'', ''B'', ''A''], ap_edges = [],
              edgeDurations = None, edgeTotalDurations = None, ap_frequency = None \<rparr>)
      ([], []))) = [] \<and>
   pairEdges [''A'', ''B'', ''A''] = [''A->B'', ''B->A'']"
  by (simp add: ghostOverlay_def injectNodes_ids injectEdges_def pairEdges_def edgeIdOf_def
        upt_rec numeral_3_eq_3)

section \<open>The edge override resolver\<close>

text \<open>
  Claim C8, as the code has it. Without an active path there is no override. With one,
  the resolver follows this priority. (a) If the path's per-edge average-duration map has
  the edge's id, the override is built from that entry: the label is the formatted
  average, which is also the raw duration of the tooltip. (b) Otherwise, if the path
  carries a timing array and a start index, the occurrences of the edge in the path's
  edge list are visited, one per position the edge stands at; an occurrence counts when
  both of its timings, at \<open>startIndex + idx\<close> and the position after it, lie inside the
  timing array; if at least one counts, the override is built from the sum of the clamped
  differences of the counted occurrences and their number. When every occurrence has its
  timings inside the array, every occurrence counts. (c) Otherwise, also when no
  occurrence counts, the resolver answers null.
\<close>

theorem override_priority:
  fixes fmt :: "real \<Rightarrow> string" and edge :: Edge and ap :: ExtendedPath
  defines "occ \<equiv> edgeIndicesOf (edges ap) (edge_id edge)"
  shows
    "calculateEdgeOverride fmt edge None = None \<and>
     length occ = count_list (edges ap) (edge_id edge) \<and>
     (\<forall>avg. lookupIn (u_specificEdgeDurations ap) (edge_id edge) = Some avg \<longrightarrow>
        calculateEdgeOverride fmt edge (Some ap) = Some (specificOverride fmt edge ap avg) \<and>
        displayLabel (specificOverride fmt edge ap avg) = fmt avg \<and>
        rawDuration (tooltipOverride (specificOverride fmt edge ap avg)) = Some avg) \<and>
     (\<forall>ts si. lookupIn (u_specificEdgeDurations ap) (edge_id edge) = None \<and>
        u_variantTimings ap = Some ts \<and> u_startIndex ap = Some si \<longrightarrow>
        calculateEdgeOverride fmt edge (Some ap) =
          (if countedOccurrences si ts occ \<noteq> []
           then Some (variantOverride fmt ap
                        (\<Sum>idx\<leftarrow>countedOccurrences si ts occ. occurrenceDelta si ts idx)
                        (length (countedOccurrences si ts occ)))
           else None) \<and>
        ((\<forall>idx\<in>set occ. 0 \<le> si + int idx \<and> si + int idx + 1 < int (length ts)) \<longrightarrow>
           countedOccurrences si ts occ = occ)) \<and>
     (lookupIn (u_specificEdgeDurations ap) (edge_id edge) = None \<and>
        (u_variantTimings ap = None \<or> u_startIndex ap = None) \<longrightarrow>
        calculateEdgeOverride fmt edge (Some ap) = None)"
proof -
  have a: "calculateEdgeOverride fmt edge None = None"
    by (simp add: calculateEdgeOverride_def)
  have b: "length occ = count_list (edges ap) (edge_id edge)"
    by (simp add: occ_def edgeIndicesOf_length)
  have c: "\<forall>avg. lookupIn (u_specificEdgeDurations ap) (edge_id edge) = Some avg \<longrightarrow>
        calculateEdgeOverride fmt edge (Some ap) = Some (specificOverride fmt edge ap avg) \<and>
        displayLabel (specificOverride fmt edge ap avg) = fmt avg \<and>
        rawDuration (tooltipOverride (specificOverride fmt edge ap avg)) = Some avg"
    by (simp add: calculateEdgeOverride_def Let_def specificOverride_def)
  have d: "\<forall>ts si. lookupIn (u_specificEdgeDurations ap) (edge_id edge) = None \<and>
        u_variantTimings ap = Some ts \<and> u_startIndex ap = Some si \<longrightarrow>
        calculateEdgeOverride fmt edge (Some ap) =
          (if countedOccurrences si ts occ \<noteq> []
           then Some (variantOverride fmt ap
                        (\<Sum>idx\<leftarrow>countedOccurrences si ts occ. occurrenceDelta si ts idx)
                        (length (countedOccurrences si ts occ)))
           else None) \<and>
        ((\<forall>idx\<in>set occ. 0 \<le> si + int idx \<and> si + int idx + 1 < int (length ts)) \<longrightarrow>
           countedOccurrences si ts occ = occ)"
  proof (intro allI impI conjI)
    fix ts si
    assume h: "lookupIn (u_specificEdgeDurations ap) (edge_id edge) = None \<and>
        u_variantTimings ap = Some ts \<and> u_startIndex ap = Some si"
    have empty_ts: "ts = [] \<Longrightarrow> countedOccurrences si ts occ = []"
      by (simp add: countedOccurrences_def elemAt_def)
    have empty_occ: "occ = [] \<Longrightarrow> countedOccurrences si ts occ = []"
      by (simp add: countedOccurrences_def)
    from h empty_ts empty_occ
    show "calculateEdgeOverride fmt edge (Some ap) =
          (if countedOccurrences si ts occ \<noteq> []
           then Some (variantOverride fmt ap
                        (\<Sum>idx\<leftarrow>countedOccurrences si ts occ. occurrenceDelta si ts idx)
                        (length (countedOccurrences si ts occ)))
           else None)"
      by (auto simp: calculateEdgeOverride_def Let_def fold_occurrenceStep occ_def [symmetric])
  next
    fix ts :: "real list" and si :: int
    assume "\<forall>idx\<in>set occ. 0 \<le> si + int idx \<and> si + int idx + 1 < int (length ts)"
    then show "countedOccurrences si ts occ = occ" by (rule countedOccurrences_all)
  qed
  have e: "lookupIn (u_specificEdgeDurations ap) (edge_id edge) = None \<and>
        (u_variantTimings ap = None \<or> u_startIndex ap = None) \<longrightarrow>
        calculateEdgeOverride fmt edge (Some ap) = None"
    by (auto simp: calculateEdgeOverride_def Let_def split: option.splits)
  from a b c d e show ?thesis by blast
qed

theorem override_priority_witness:
  "lookupIn None ''A->B'' = (None :: real option) \<and>
   countedOccurrences 0 [0, 5, 3, 9] (edgeIndicesOf [''A->B'', ''B->A'', ''A->B''] ''A->B'') = [0, 2] \<and>
   calculateEdgeOverride (\<lambda>r. ''d'') (overlayEdge False ''A->B'')
     (Some \<lparr> nodes = [''A'', ''B'', ''A'', ''B''], edges = [''A->B'', ''B->A'', ''A->B''],
             frequency = None, totalDuration = None, averageDuration = None,
             u_variantDuration = None, u_frequency = Some 2, u_fullPathNodes = None,
             u_startIndex = Some 0, u_endIndex = Some 3, u_pathType = None,
             u_variantTimings = Some [0, 5, 3, 9], u_specificEdgeDurations = None,
             u_specificTotalDurations = None \<rparr>)
   = Some (variantOverride (\<lambda>r. ''d'')
       \<lparr> nodes = [''A'', ''B'', ''A'', ''B''], edges = [''A->B'', ''B->A'', ''A->B''],
         frequency = None, totalDuration = None, averageDuration = None,
         u_variantDuration = None, u_frequency = Some 2, u_fullPathNodes = None,
         u_startIndex = Some 0, u_endIndex = Some 3, u_pathType = None,
         u_variantTimings = Some [0, 5, 3, 9], u_specificEdgeDurations = None,
         u_specificTotalDurations = None \<rparr> 11 2)"
proof -
  let ?ap = "\<lparr> nodes = [''A'', ''B'', ''A'', ''B''], edges = [''A->B'', ''B->A'', ''A->B''],
               frequency = None, totalDuration = None, averageDuration = None,
               u_variantDuration = None, u_frequency = Some (2::nat), u_fullPathNodes = None,
               u_startIndex = Some (0::int), u_endIndex = Some 3, u_pathType = None,
               u_variantTimings = Some [0, 5, 3, 9::real], u_specificEdgeDurations = None,
               u_specificTotalDurations = None \<rparr>"
  let ?e = "overlayEdge False ''A->B''"
  have id: "edge_id ?e = ''A->B''" by (simp add: overlayEdge_def Let_def)
  have l: "lookupIn (u_specificEdgeDurations ?ap) (edge_id ?e) = None"
    by (simp add: lookupIn_def)
  have occ: "edgeIndicesOf (edges ?ap) (edge_id ?e) = [0, 2]"
    by (simp add: id edgeIndicesOf_def upt_rec numeral_3_eq_3)
  have cnt: "countedOccurrences 0 [0, 5, 3, 9] [0, 2] = [0, 2]"
    by (simp add: countedOccurrences_def elemAt_def)
  have dl: "(\<Sum>idx\<leftarrow>[0, 2]. occurrenceDelta 0 [0, 5, 3, 9] idx) = 11"
    by (simp add: occurrenceDelta_def numeral_3_eq_3 numeral_2_eq_2)
  from override_priority [of "\<lambda>r. ''d''" ?e ?ap]
  have "\<forall>ts si. lookupIn (u_specificEdgeDurations ?ap) (edge_id ?e) = None \<and>
        u_variantTimings ?ap = Some ts \<and> u_startIndex ?ap = Some si \<longrightarrow>
        calculateEdgeOverride (\<lambda>r. ''d'') ?e (Some ?ap) =
          (if countedOccurrences si ts (edgeIndicesOf (edges ?ap) (edge_id ?e)) \<noteq> []
           then Some (variantOverride (\<lambda>r. ''d'') ?ap
                        (\<Sum>idx\<leftarrow>countedOccurrences si ts (edgeIndicesOf (edges ?ap) (edge_id ?e)).
                            occurrenceDelta si ts idx)
                        (length (countedOccurrences si ts (edgeIndicesOf (edges ?ap) (edge_id ?e)))))
           else None) \<and>
        ((\<forall>idx\<in>set (edgeIndicesOf (edges ?ap) (edge_id ?e)).
             0 \<le> si + int idx \<and> si + int idx + 1 < int (length ts)) \<longrightarrow>
           countedOccurrences si ts (edgeIndicesOf (edges ?ap) (edge_id ?e))
             = edgeIndicesOf (edges ?ap) (edge_id ?e))"
    by (elim conjE)
  then have "lookupIn (u_specificEdgeDurations ?ap) (edge_id ?e) = None \<and>
        u_variantTimings ?ap = Some [0, 5, 3, 9] \<and> u_startIndex ?ap = Some 0 \<longrightarrow>
        calculateEdgeOverride (\<lambda>r. ''d'') ?e (Some ?ap) =
          (if countedOccurrences 0 [0, 5, 3, 9] (edgeIndicesOf (edges ?ap) (edge_id ?e)) \<noteq> []
           then Some (variantOverride (\<lambda>r. ''d'') ?ap
                        (\<Sum>idx\<leftarrow>countedOccurrences 0 [0, 5, 3, 9] (edgeIndicesOf (edges ?ap) (edge_id ?e)).
                            occurrenceDelta 0 [0, 5, 3, 9] idx)
                        (length (countedOccurrences 0 [0, 5, 3, 9] (edgeIndicesOf (edges ?ap) (edge_id ?e)))))
           else None)"
    by blast
  moreover have len: "length [0::nat, 2] = 2" by simp
  ultimately have "calculateEdgeOverride (\<lambda>r. ''d'') ?e (Some ?ap) =
      Some (variantOverride (\<lambda>r. ''d'') ?ap 11 2)"
    using l unfolding occ cnt dl len by simp
  moreover have "countedOccurrences 0 [0, 5, 3, 9]
      (edgeIndicesOf [''A->B'', ''B->A'', ''A->B''] ''A->B'') = [0, 2]"
    using occ cnt by (simp add: id)
  moreover have "lookupIn None ''A->B'' = (None :: real option)" by (simp add: lookupIn_def)
  ultimately show ?thesis by blast
qed

text \<open>
  As stated, (b) fails where the edge occurs and timings are carried but no occurrence
  has both timings inside the array: for the edge list [A->B] and the timings [5] the
  resolver answers null, not an override.
\<close>

theorem override_priority_counterexample:
  "calculateEdgeOverride (\<lambda>r. ''d'') (overlayEdge False ''A->B'')
     (Some \<lparr> nodes = [''A'', ''B''], edges = [''A->B''],
             frequency = None, totalDuration = None, averageDuration = None,
             u_variantDuration = None, u_frequency = Some 2, u_fullPathNodes = None,
             u_startIndex = Some 0, u_endIndex = Some 1, u_pathType = None,
             u_variantTimings = Some [5], u_specificEdgeDurations = None,
             u_specificTotalDurations = None \<rparr>) = None \<and>
   count_list [''A->B''] (edge_id (overlayEdge False ''A->B'')) = 1"
  by (simp add: calculateEdgeOverride_def lookupIn_def edgeIndicesOf_def occurrenceStep_def
        elemAt_def overlayEdge_def Let_def)

section \<open>Facts about the layout\<close>

lemma computeLayout_settles: "\<exists>s'. computeLayout env config s = Inr s'"
  by (simp add: computeLayout_def Let_def split: sum.splits)

section \<open>A failed layout\<close>

text \<open>
  Claim C9. If the external layout call fails (its promise is rejected or it throws),
  \<open>computeLayout\<close> still settles normally: the store is the one the layout started
  from, with the loading flag (raised, together with the loading message, when the layout
  began) reset and nothing else touched, so the previously laid out nodes and edges, and
  every other field, are as they were before the call. No call of \<open>computeLayout\<close>
  ends in a rejection.
\<close>

theorem layout_failure_keeps_layout:
  assumes "fst (toLayout config s) \<noteq> []"
    and "elk_layout env (graphToLayout (fst (toLayout config s)) (snd (toLayout config s))) = None"
  shows "computeLayout env config s
           = Inr (s \<lparr> isLayoutLoading := True, loadingMessage := LAYOUT_MESSAGE \<rparr>
                    \<lparr> isLayoutLoading := False \<rparr>) \<and>
         (\<exists>s'. computeLayout env config s = Inr s' \<and>
            layoutedNodes s' = layoutedNodes s \<and> layoutedEdges s' = layoutedEdges s \<and>
            isLayoutLoading s' = False \<and>
            allNodes s' = allNodes s \<and> allEdges s' = allEdges s \<and>
            isPathFinding s' = isPathFinding s \<and> pathStartNodeId s' = pathStartNodeId s \<and>
            pathEndNodeId s' = pathEndNodeId s \<and> foundPaths s' = foundPaths s \<and>
            activePath s' = activePath s \<and> u_edgeLookupMap s' = u_edgeLookupMap s) \<and>
         (\<forall>env' config' s0. \<exists>s'. computeLayout env' config' s0 = Inr s')"
proof -
  from assms have r: "computeLayout env config s
           = Inr (s \<lparr> isLayoutLoading := True, loadingMessage := LAYOUT_MESSAGE \<rparr>
                    \<lparr> isLayoutLoading := False \<rparr>)"
    by (simp add: computeLayout_def tryLayout_def Let_def)
  then show ?thesis by (simp add: computeLayout_settles)
qed

theorem layout_failure_keeps_layout_witness:
  "fst (toLayout
      \<lparr> colorPaletteKey = ''default'', filteredNodeIds = {}, filteredEdgeIds = None,
        activePathInfo = None, searchCasePathInfo = None \<rparr>
      (initialState \<lparr> allNodes := [activityNode [] [] ''A''],
                      layoutedNodes := [activityNode [] [] ''B''],
                      layoutedEdges := [overlayEdge False ''B->B''] \<rparr>)) \<noteq> [] \<and>
   map_sum id (\<lambda>s'. (layoutedNodes s', layoutedEdges s', isLayoutLoading s'))
     (computeLayout
        \<lparr> elk_layout = (\<lambda>g. None), formatDuration = (\<lambda>r. ''d''),
          colorPalettes = (\<lambda>k. None), defaultPalette = (\<lambda>w mn mx. ''#000000'') \<rparr>
        \<lparr> colorPaletteKey = ''default'', filteredNodeIds = {}, filteredEdgeIds = None,
          activePathInfo = None, searchCasePathInfo = None \<rparr>
        (initialState \<lparr> allNodes := [activityNode [] [] ''A''],
                        layoutedNodes := [activityNode [] [] ''B''],
                        layoutedEdges := [overlayEdge False ''B->B''] \<rparr>))
   = Inr ([activityNode [] [] ''B''], [overlayEdge False ''B->B''], False)"
proof -
  let ?env = "\<lparr> elk_layout = (\<lambda>g. None), formatDuration = (\<lambda>r. ''d''),
          colorPalettes = (\<lambda>k. None), defaultPalette = (\<lambda>w mn mx. ''#000000'') \<rparr>
            :: Env"
  let ?cfg = "\<lparr> colorPaletteKey = ''default'', filteredNodeIds = {}, filteredEdgeIds = None,
          activePathInfo = None, searchCasePathInfo = None \<rparr>"
  let ?s = "initialState \<lparr> allNodes := [activityNode [] [] ''A''],
                        layoutedNodes := [activityNode [] [] ''B''],
                        layoutedEdges := [overlayEdge False ''B->B''] \<rparr>"
  have a: "fst (toLayout ?cfg ?s) \<noteq> []"
    by (simp add: toLayout_def searchCaseOverlay_def ghostOverlay_def subgraphFilter_def
          applyNodeFilter_def applyEdgeFilter_def Let_def)
  have b: "elk_layout ?env (graphToLayout (fst (toLayout ?cfg ?s)) (snd (toLayout ?cfg ?s))) = None"
    by simp
  from layout_failure_keeps_layout [OF a b]
  have "computeLayout ?env ?cfg ?s
           = Inr (?s \<lparr> isLayoutLoading := True, loadingMessage := LAYOUT_MESSAGE \<rparr>
                     \<lparr> isLayoutLoading := False \<rparr>)"
    by (elim conjE)
  then have "map_sum id (\<lambda>s'. (layoutedNodes s', layoutedEdges s', isLayoutLoading s'))
     (computeLayout ?env ?cfg ?s)
   = Inr ([activityNode [] [] ''B''], [overlayEdge False ''B->B''], False)"
    by simp
  with a show ?thesis by blast
qed

end
